theory Spec2Isabelle
  imports Main "HOL-Library.Word"
begin

unbundle bit_operations_syntax

section \<open>The environment of \<open>signalfd_ctx.c\<close>\<close>

text \<open>
  \<open>signalfd_ctx.c\<close> emulates a signal-consuming descriptor on top of kqueue. Every effect
  of the file is a call into the kernel, into libpthread or into the \<open>kqueue_event\<close>
  helper of the same repository, so the embedding threads an explicit \<open>world\<close> through
  the code: the process-level pending set, the ready bit of the registration, the signals
  that have a live observer entry, the number of times a thread was put to sleep in a
  kernel wait, a schedule of what the environment does around each
  call, and the trace of the calls issued so far.
\<close>

subsection \<open>Error numbers, time, kevents\<close>

text \<open>
  \<open>errno_t\<close> is \<open>errno option\<close>: \<open>None\<close> is the C value 0. On the BSDs
  \<open>EWOULDBLOCK\<close> and \<open>EAGAIN\<close> are the same number.
\<close>

datatype errno = EAGAIN | EINVAL | EINTR | EFAULT | ENOMEM | EBADF | EBUSY

abbreviation (input) EWOULDBLOCK :: errno where
  "EWOULDBLOCK \<equiv> EAGAIN"

type_synonym errno_t = "errno option"

record timespec =
  tv_sec :: int
  tv_nsec :: int

definition timespec_valid :: "timespec \<Rightarrow> bool" where
  "timespec_valid ts = (0 \<le> tv_sec ts \<and> 0 \<le> tv_nsec ts \<and> tv_nsec ts < 1000000000)"

datatype kfilter = EVFILT_SIGNAL | EVFILT_USER

datatype kflag = EV_ADD | EV_DELETE

datatype kevent = EV_SET nat kfilter kflag

definition POLLIN :: "32 word" where
  "POLLIN = 1"

subsection \<open>Signal sets\<close>

text \<open>
  A \<open>sigset_t\<close> is a bit mask, signal \<open>i\<close> at bit \<open>i - 1\<close>; its width is a parameter
  (32 on OpenBSD, where the type is \<open>unsigned int\<close>). \<open>sigisemptyset\<close> and \<open>sigandset\<close>
  are the macros of lines 16-32; \<open>sigandset\<close> always yields 0, so only its destination
  is modelled. \<open>_SIG_MAXSIG\<close> is the default of line 72, the number of bits of the type.
\<close>

definition sigisemptyset :: "'a::len word \<Rightarrow> bool" where
  "sigisemptyset sigs = (sigs = 0)"

definition sigandset :: "'a::len word \<Rightarrow> 'a word \<Rightarrow> 'a word" where
  "sigandset sl sr = sl AND sr"

definition sigismember :: "'a::len word \<Rightarrow> nat \<Rightarrow> bool" where
  "sigismember sigs signo = (1 \<le> signo \<and> signo \<le> LENGTH('a) \<and> bit sigs (signo - 1))"

definition SIG_MAXSIG :: "'a::len word \<Rightarrow> nat" where
  "SIG_MAXSIG sigs = LENGTH('a)"

text \<open>
  \<open>ffs\<close>: one plus the index of the least significant set bit, 0 for the zero word.
  \<open>__builtin_ffsll\<close> is its instance at 64 bits; \<open>sigmask\<close> is OpenBSD's
  \<open>1U << (n - 1)\<close>.
\<close>

definition ffs :: "'a::len word \<Rightarrow> nat" where
  "ffs x = (case find (bit x) [0..<LENGTH('a)] of None \<Rightarrow> 0 | Some n \<Rightarrow> Suc n)"

definition ffsll :: "64 word \<Rightarrow> nat" where
  "ffsll x = ffs x"

definition sigmask :: "nat \<Rightarrow> 32 word" where
  "sigmask n = push_bit (n - 1) 1"

subsection \<open>The world\<close>

text \<open>
  An \<open>event\<close> is what the environment does around one call of the code: the signals
  delivered to the process just before the call takes effect, whether the call fails
  (with which errno), and which pending signal a consuming wait hands out when several
  qualify. Once the script is used up the environment is quiet.
\<close>

record event =
  arrivals :: "nat list"
  failure :: "errno option"
  choice :: nat

definition quiet :: event where
  "quiet = \<lparr>arrivals = [], failure = None, choice = 0\<rparr>"

datatype 's call =
    Sigpending
  | Sigtimedwait 's timespec
  | Thrsigdivert 's timespec
  | Kevent "kevent list"
  | Kqueue_event_init
  | Kqueue_event_trigger
  | Kqueue_event_clear
  | Kqueue_event_terminate
  | Mutex_init
  | Mutex_destroy
  | Mutex_lock
  | Mutex_unlock

record (overloaded) 'a world =
  pending :: "'a word"
  ready :: bool
  observed :: "nat list"
  slept :: nat
  script :: "event list"
  trace :: "'a word call list"

text \<open>
  Delivery of signal \<open>s\<close> (blocked, as a signalfd user must have it): the signal becomes
  pending, and the observer filter, if one is registered for \<open>s\<close>, makes the
  registration ready. Nothing is dequeued.
\<close>

definition deliver :: "nat \<Rightarrow> ('a::len) world \<Rightarrow> 'a world" where
  "deliver s w =
     (if 1 \<le> s \<and> s \<le> LENGTH('a)
      then w\<lparr>pending := set_bit (s - 1) (pending w),
             ready := (ready w \<or> s \<in> set (observed w))\<rparr>
      else w)"

definition deliver_all :: "nat list \<Rightarrow> ('a::len) world \<Rightarrow> 'a world" where
  "deliver_all ss w = fold deliver ss w"

definition next_event :: "'a word call \<Rightarrow> ('a::len) world \<Rightarrow> event \<times> 'a world" where
  "next_event c w =
     (case script w of
        [] \<Rightarrow> (quiet, w\<lparr>trace := trace w @ [c]\<rparr>)
      | e # es \<Rightarrow> (e, (deliver_all (arrivals e) w)\<lparr>script := es, trace := trace w @ [c]\<rparr>))"

subsection \<open>Kernel and libpthread calls\<close>

definition sigpending :: "('a::len) world \<Rightarrow> (errno + 'a word) \<times> 'a world" where
  "sigpending w =
     (let (e, w') = next_event Sigpending w in
      case failure e of
        Some err \<Rightarrow> (Inl err, w')
      | None \<Rightarrow> (Inr (pending w'), w'))"

text \<open>
  The consuming wait shared by \<open>sigtimedwait\<close> and \<open>__thrsigdivert\<close>: a pending signal
  of the set is dequeued and returned at once. With none, an invalid timespec gives
  \<open>EINVAL\<close>, the zero timespec gives \<open>EAGAIN\<close>, both at once; any other timespec puts
  the thread to sleep until it runs out, which the world counts in \<open>slept\<close>, and then
  gives \<open>EAGAIN\<close>.
\<close>

definition kernel_sigwait ::
    "'a word call \<Rightarrow> ('a::len) word \<Rightarrow> timespec \<Rightarrow> 'a world \<Rightarrow> (errno + nat) \<times> 'a world" where
  "kernel_sigwait c set_arg timeout w =
     (let (e, w') = next_event c w;
          avail = pending w' AND set_arg
      in case failure e of
           Some err \<Rightarrow> (Inl err, w')
         | None \<Rightarrow>
             if avail = 0
             then (if \<not> timespec_valid timeout then (Inl EINVAL, w')
                   else if tv_sec timeout = 0 \<and> tv_nsec timeout = 0 then (Inl EAGAIN, w')
                   else (Inl EAGAIN, w'\<lparr>slept := Suc (slept w')\<rparr>))
             else let s = (if sigismember avail (choice e) then choice e else ffs avail)
                  in (Inr s, w'\<lparr>pending := unset_bit (s - 1) (pending w')\<rparr>))"

definition sigtimedwait ::
    "('a::len) word \<Rightarrow> timespec \<Rightarrow> 'a world \<Rightarrow> (errno + nat) \<times> 'a world" where
  "sigtimedwait set_arg timeout w = kernel_sigwait (Sigtimedwait set_arg timeout) set_arg timeout w"

definition thrsigdivert ::
    "('a::len) word \<Rightarrow> timespec \<Rightarrow> 'a world \<Rightarrow> (errno + nat) \<times> 'a world" where
  "thrsigdivert set_arg timeout w = kernel_sigwait (Thrsigdivert set_arg timeout) set_arg timeout w"

text \<open>
  \<open>kevent(kq, kevs, n, NULL, 0, NULL)\<close>: the change list is applied as a whole; every
  \<open>EVFILT_SIGNAL\<close> entry added becomes a live observer. No event is fetched, so the
  call returns 0 on success.
\<close>

fun kevent_signal :: "kevent \<Rightarrow> nat list" where
  "kevent_signal (EV_SET i EVFILT_SIGNAL EV_ADD) = [i]"
| "kevent_signal _ = []"

definition kevent :: "kevent list \<Rightarrow> ('a::len) world \<Rightarrow> (errno + nat) \<times> 'a world" where
  "kevent kevs w =
     (let (e, w') = next_event (Kevent kevs) w in
      case failure e of
        Some err \<Rightarrow> (Inl err, w')
      | None \<Rightarrow> (Inr 0, w'\<lparr>observed := observed w' @ concat (map kevent_signal kevs)\<rparr>))"

definition pthread_mutex_init :: "('a::len) world \<Rightarrow> errno_t \<times> 'a world" where
  "pthread_mutex_init w = (let (e, w') = next_event Mutex_init w in (failure e, w'))"

definition pthread_mutex_destroy :: "('a::len) world \<Rightarrow> errno_t \<times> 'a world" where
  "pthread_mutex_destroy w = (let (e, w') = next_event Mutex_destroy w in (failure e, w'))"

definition pthread_mutex_lock :: "('a::len) world \<Rightarrow> errno_t \<times> 'a world" where
  "pthread_mutex_lock w = (let (e, w') = next_event Mutex_lock w in (failure e, w'))"

definition pthread_mutex_unlock :: "('a::len) world \<Rightarrow> errno_t \<times> 'a world" where
  "pthread_mutex_unlock w = (let (e, w') = next_event Mutex_unlock w in (failure e, w'))"

subsection \<open>The EventTrigger (\<open>kqueue_event\<close>)\<close>

text \<open>
  Modelled from the spec: \<open>kqueue_event_init\<close>, prepares the registration handle; called
  with \<open>should_trigger = false\<close>, so the registration starts not ready. The entries it
  adds to the change list for its own use are not modelled: the batch request creates
  one observer entry per signal of the set.
\<close>

definition kqueue_event_init :: "('a::len) world \<Rightarrow> errno_t \<times> 'a world" where
  "kqueue_event_init w =
     (let (e, w') = next_event Kqueue_event_init w in
      case failure e of
        Some err \<Rightarrow> (Some err, w')
      | None \<Rightarrow> (None, w'\<lparr>ready := False\<rparr>))"

text \<open>
  Modelled from the spec: \<open>kqueue_event_trigger\<close>, "marks the registration ready even
  absent a real kernel delivery"; it reports an error when it fails, and then it has
  marked nothing.
\<close>

definition kqueue_event_trigger :: "('a::len) world \<Rightarrow> errno_t \<times> 'a world" where
  "kqueue_event_trigger w =
     (let (e, w') = next_event Kqueue_event_trigger w in
      case failure e of
        Some err \<Rightarrow> (Some err, w')
      | None \<Rightarrow> (None, w'\<lparr>ready := True\<rparr>))"

text \<open>
  Modelled from the spec: \<open>kqueue_event_clear\<close>, "resets the registration's ready state
  to false". It returns nothing. A signal that arrives while the call is under way is
  wiped from the ready bit with the rest, which is the race the code rechecks for.
\<close>

definition kqueue_event_clear :: "('a::len) world \<Rightarrow> 'a world" where
  "kqueue_event_clear w =
     (let (e, w') = next_event Kqueue_event_clear w in w'\<lparr>ready := False\<rparr>)"

text \<open>
  Modelled from the spec: \<open>kqueue_event_terminate\<close>, "removes the kernel-level entries
  and releases the handle".
\<close>

definition kqueue_event_terminate :: "('a::len) world \<Rightarrow> errno_t \<times> 'a world" where
  "kqueue_event_terminate w =
     (let (e, w') = next_event Kqueue_event_terminate w in
      case failure e of
        Some err \<Rightarrow> (Some err, w')
      | None \<Rightarrow> (None, w'\<lparr>ready := False, observed := []\<rparr>))"

section \<open>The code of \<open>signalfd_ctx.c\<close>\<close>

text \<open>
  The context keeps the queue descriptor and the signal set; its mutex and its
  \<open>kqueue_event\<close> live in the world.
\<close>

record (overloaded) 'a SignalFDCtx =
  kq :: int
  sigs :: "'a word"

text \<open>
  \<open>signalfd_has_pending\<close> (lines 34-50). The out-parameters \<open>has_pending\<close> and \<open>pending\<close>
  are returned as a pair; a caller that passes \<open>NULL\<close> for \<open>pending\<close> drops the second.
\<close>

definition signalfd_has_pending ::
    "('a::len) SignalFDCtx \<Rightarrow> 'a world \<Rightarrow> (errno + bool \<times> 'a word) \<times> 'a world" where
  "signalfd_has_pending signalfd w =
     (case sigpending w of
        (Inl ec, w') \<Rightarrow> (Inl ec, w')
      | (Inr pending_sigs, w') \<Rightarrow>
          (let pending_sigs = sigandset pending_sigs (sigs signalfd)
           in (Inr (\<not> sigisemptyset pending_sigs, pending_sigs), w')))"

definition signalfd_ctx_trigger_manually ::
    "('a::len) SignalFDCtx \<Rightarrow> 'a world \<Rightarrow> errno_t \<times> 'a world" where
  "signalfd_ctx_trigger_manually signalfd w = kqueue_event_trigger w"

text \<open>\<open>signalfd_ctx_init\<close> (lines 58-112); \<open>init_out\<close> is the code from label \<open>out\<close> on.\<close>

primrec signal_kevents :: "'a::len word \<Rightarrow> nat list \<Rightarrow> kevent list" where
  "signal_kevents ss [] = []"
| "signal_kevents ss (i # is) =
     (if sigismember ss i then EV_SET i EVFILT_SIGNAL EV_ADD # signal_kevents ss is
      else signal_kevents ss is)"

definition init_out :: "errno \<Rightarrow> ('a::len) world \<Rightarrow> errno_t \<times> 'a world" where
  "init_out ec w =
     (let w1 = snd (kqueue_event_terminate w);
          w2 = snd (pthread_mutex_destroy w1)
      in (Some ec, w2))"

definition signalfd_ctx_init ::
    "int \<Rightarrow> ('a::len) word \<Rightarrow> 'a world \<Rightarrow> errno_t \<times> 'a SignalFDCtx \<times> 'a world" where
  "signalfd_ctx_init kq_arg sigs_arg w =
     (let signalfd = \<lparr>kq = kq_arg, sigs = sigs_arg\<rparr> in
      case pthread_mutex_init w of
        (Some ec, w1) \<Rightarrow> (Some ec, signalfd, w1)
      | (None, w1) \<Rightarrow>
          (case kqueue_event_init w1 of
             (Some ec, w2) \<Rightarrow> (Some ec, signalfd, snd (pthread_mutex_destroy w2))
           | (None, w2) \<Rightarrow>
               (let kevs = signal_kevents (sigs signalfd) [1..<Suc (SIG_MAXSIG sigs_arg)] in
                case kevent kevs w2 of
                  (Inl ec, w3) \<Rightarrow> (let (r, w') = init_out ec w3 in (r, signalfd, w'))
                | (Inr n, w3) \<Rightarrow>
                    (case signalfd_has_pending signalfd w3 of
                       (Inl ec, w4) \<Rightarrow> (let (r, w') = init_out ec w4 in (r, signalfd, w'))
                     | (Inr (has_pending, _), w4) \<Rightarrow>
                         if has_pending
                         then (case signalfd_ctx_trigger_manually signalfd w4 of
                                 (Some ec, w5) \<Rightarrow>
                                   (let (r, w') = init_out ec w5 in (r, signalfd, w'))
                               | (None, w5) \<Rightarrow> (None, signalfd, w5))
                         else (None, signalfd, w4)))))"

text \<open>\<open>signalfd_ctx_terminate\<close> (lines 114-126).\<close>

definition signalfd_ctx_terminate :: "('a::len) SignalFDCtx \<Rightarrow> 'a world \<Rightarrow> errno_t \<times> 'a world" where
  "signalfd_ctx_terminate signalfd w =
     (let ec = None;
          (ec_local, w1) = kqueue_event_terminate w;
          ec = (if ec \<noteq> None then ec else ec_local);
          (ec_local, w2) = pthread_mutex_destroy w1;
          ec = (if ec \<noteq> None then ec else ec_local)
      in (ec, w2))"

text \<open>
  \<open>signalfd_ctx_read_impl\<close> (lines 128-183), the variant of every platform but OpenBSD.
  The pointer \<open>ident\<close> is modelled by the value it points to, passed in and handed back;
  \<open>(uint32_t)s\<close> is \<open>word_of_nat\<close>.
\<close>

definition zero_timeout :: timespec where
  "zero_timeout = \<lparr>tv_sec = 0, tv_nsec = 0\<rparr>"

definition signalfd_ctx_read_impl ::
    "('a::len) SignalFDCtx \<Rightarrow> 32 word \<Rightarrow> 'a world \<Rightarrow> errno_t \<times> 32 word \<times> 'a world" where
  "signalfd_ctx_read_impl signalfd ident w =
     (case sigtimedwait (sigs signalfd) zero_timeout w of
        (Inl err, w1) \<Rightarrow> (Some err, ident, w1)
      | (Inr s, w1) \<Rightarrow> (None, word_of_nat s, w1))"

text \<open>
  \<open>signalfd_ctx_clear_signal\<close> (lines 185-217). \<open>clear_and_recheck\<close> is its second
  half, lines 200-216, which both paths of the first half fall into. The condition
  \<open>signalfd_has_pending(...) != 0 || has_pending\<close> is \<open>failed_or_pending\<close>.
\<close>

definition failed_or_pending :: "errno + bool \<times> 'a word \<Rightarrow> bool" where
  "failed_or_pending r = (case r of Inl ec \<Rightarrow> True | Inr (has_pending, _) \<Rightarrow> has_pending)"

definition clear_and_recheck :: "('a::len) SignalFDCtx \<Rightarrow> 'a world \<Rightarrow> bool \<times> 'a world" where
  "clear_and_recheck signalfd w =
     (let w1 = kqueue_event_clear w;
          (r, w2) = signalfd_has_pending signalfd w1
      in if failed_or_pending r
         then (True, snd (signalfd_ctx_trigger_manually signalfd w2))
         else (False, w2))"

definition signalfd_ctx_clear_signal ::
    "('a::len) SignalFDCtx \<Rightarrow> bool \<Rightarrow> 'a world \<Rightarrow> bool \<times> 'a world" where
  "signalfd_ctx_clear_signal signalfd was_triggered w =
     (if was_triggered
      then (let (r, w') = signalfd_has_pending signalfd w
            in if failed_or_pending r then (True, w')
               else clear_and_recheck signalfd w')
      else clear_and_recheck signalfd w)"

text \<open>\<open>signalfd_ctx_read\<close> (lines 219-232).\<close>

definition signalfd_ctx_read ::
    "('a::len) SignalFDCtx \<Rightarrow> 32 word \<Rightarrow> 'a world \<Rightarrow> errno_t \<times> 32 word \<times> 'a world" where
  "signalfd_ctx_read signalfd ident w =
     (let w1 = snd (pthread_mutex_lock w);
          (ec, ident', w2) = signalfd_ctx_read_impl signalfd ident w1;
          w3 = (if ec = None \<or> ec = Some EAGAIN \<or> ec = Some EWOULDBLOCK
                then snd (signalfd_ctx_clear_signal signalfd False w2)
                else w2);
          w4 = snd (pthread_mutex_unlock w3)
      in (ec, ident', w4))"

text \<open>
  \<open>signalfd_ctx_poll\<close> (lines 234-245). \<open>revents\<close> is \<open>None\<close> for a null pointer, else the
  value pointed to.
\<close>

definition signalfd_ctx_poll ::
    "('a::len) SignalFDCtx \<Rightarrow> 32 word option \<Rightarrow> 'a world \<Rightarrow> 32 word option \<times> 'a world" where
  "signalfd_ctx_poll signalfd revents w =
     (let w1 = snd (pthread_mutex_lock w);
          (pending_flag, w2) = signalfd_ctx_clear_signal signalfd (revents \<noteq> None) w1;
          revents' = (if revents \<noteq> None then Some (if pending_flag then POLLIN else 0) else revents);
          w3 = snd (pthread_mutex_unlock w2)
      in (revents', w3))"

section \<open>The claim loop of the OpenBSD variant\<close>

text \<open>
  On OpenBSD \<open>signalfd_ctx_read_impl\<close> is the loop of lines 140-173. It goes round again
  only when \<open>__thrsigdivert\<close> fails with \<open>EINVAL\<close> or \<open>EAGAIN\<close> although the query
  just before saw the signal pending, which takes an interference of the environment;
  the script of the world holds finitely many of these, and its length is the measure
  of the recursion.
\<close>

subsection \<open>The lowest pending signal\<close>

lemma ffs_bit:
  fixes x :: "'a::len word"
  assumes "x \<noteq> 0"
  shows "0 < ffs x \<and> ffs x \<le> LENGTH('a) \<and> bit x (ffs x - 1)"
proof -
  from assms obtain n where n: "bit x n"
    by (auto simp: bit_eq_iff)
  then have "n < LENGTH('a)" by (simp add: bit_imp_le_length)
  with n have "find (bit x) [0..<LENGTH('a)] \<noteq> None"
    by (auto simp: find_None_iff)
  then obtain m where m: "find (bit x) [0..<LENGTH('a)] = Some m" by auto
  then have "bit x m" "m < LENGTH('a)"
    by (auto simp: find_Some_iff)
  with m show ?thesis by (simp add: ffs_def)
qed

lemma ffsll_ucast_bit:
  fixes x :: "32 word"
  assumes "x \<noteq> 0"
  shows "0 < ffsll (ucast x) \<and> ffsll (ucast x) \<le> 32 \<and> bit x (ffsll (ucast x) - 1)"
proof -
  have "(ucast x :: 64 word) \<noteq> 0"
  proof
    assume "(ucast x :: 64 word) = 0"
    then have h: "\<not> bit (ucast x :: 64 word) n" for n by simp
    have "\<not> bit x n" for n
      using h [of n] bit_imp_le_length [of x n] by (auto simp: bit_ucast_iff)
    then have "x = 0" by (simp add: bit_eq_iff)
    with assms show False by simp
  qed
  from ffs_bit [OF this] have b: "0 < ffs (ucast x :: 64 word)" "bit (ucast x :: 64 word) (ffs (ucast x :: 64 word) - 1)"
    by auto
  from b(2) have "bit x (ffs (ucast x :: 64 word) - 1)" by (simp add: bit_ucast_iff)
  moreover from this have "ffs (ucast x :: 64 word) - 1 < 32" by (auto dest: bit_imp_le_length)
  ultimately show ?thesis using b(1) by (simp add: ffsll_def)
qed

lemma sigmask_and:
  fixes x :: "32 word"
  assumes "bit x (n - 1)"
  shows "x AND sigmask n \<noteq> 0"
proof -
  have "bit (x AND sigmask n) (n - 1)"
    using assms by (auto simp: sigmask_def bit_and_iff bit_push_bit_iff bit_exp_iff dest: bit_imp_le_length)
  then show ?thesis by auto
qed

lemma script_deliver [simp]: "script (deliver s w) = script w"
  by (simp add: deliver_def)

lemma script_deliver_all [simp]: "script (deliver_all ss w) = script w"
  unfolding deliver_all_def by (induction ss arbitrary: w) simp_all

lemma script_next_event [simp]: "script (snd (next_event c w)) = tl (script w)"
  by (simp add: next_event_def split: list.splits)

lemma next_event_quiet: "script w = [] \<Longrightarrow> next_event c w = (quiet, w\<lparr>trace := trace w @ [c]\<rparr>)"
  by (simp add: next_event_def)

subsection \<open>The loop\<close>

text \<open>The timespec \<open>{0, -1}\<close> of line 166.\<close>

definition invalid_timeout :: timespec where
  "invalid_timeout = \<lparr>tv_sec = 0, tv_nsec = -1\<rparr>"

lemma script_sigpending [simp]: "script (snd (sigpending w)) = tl (script w)"
  by (simp add: sigpending_def split: prod.splits option.splits)
    (metis script_next_event snd_conv)

lemma script_has_pending [simp]: "script (snd (signalfd_has_pending ctx w)) = tl (script w)"
  by (simp add: signalfd_has_pending_def split: prod.splits sum.splits)
    (metis script_sigpending snd_conv)

lemma script_kernel_sigwait [simp]: "script (snd (kernel_sigwait c m ts w)) = tl (script w)"
  by (simp add: kernel_sigwait_def Let_def split: prod.splits option.splits)
    (metis script_next_event snd_conv)

lemma has_pending_quiet:
  "script w = [] \<Longrightarrow>
   signalfd_has_pending ctx w =
     (Inr (pending w AND sigs ctx \<noteq> 0, pending w AND sigs ctx), w\<lparr>trace := trace w @ [Sigpending]\<rparr>)"
  by (simp add: signalfd_has_pending_def sigpending_def next_event_quiet quiet_def
      sigandset_def sigisemptyset_def Let_def)

lemma kernel_sigwait_quiet:
  "script w = [] \<Longrightarrow> pending w AND m \<noteq> 0 \<Longrightarrow> \<exists>s w'. kernel_sigwait c m ts w = (Inr s, w')"
  by (simp add: kernel_sigwait_def next_event_quiet quiet_def Let_def)

lemma retry_consumes_script:
  fixes w :: "32 world"
  assumes hp: "signalfd_has_pending ctx w = (Inr (True, ps), w1)"
    and td: "thrsigdivert (sigmask (ffsll (ucast ps))) ts w1 = (Inl e, w2)"
  shows "length (script w2) < length (script w)"
proof (cases "script w")
  case Nil
  from has_pending_quiet [OF Nil, of ctx] hp
  have ps: "ps = pending w AND sigs ctx" "ps \<noteq> 0" and w1: "w1 = w\<lparr>trace := trace w @ [Sigpending]\<rparr>"
    by auto
  from ffsll_ucast_bit [OF ps(2)] have "bit ps (ffsll (ucast ps) - 1)" by simp
  then have "bit (pending w) (ffsll (ucast ps) - 1)" by (simp add: ps(1) bit_and_iff)
  then have "pending w1 AND sigmask (ffsll (ucast ps)) \<noteq> 0"
    by (simp add: w1 sigmask_and)
  moreover have "script w1 = []" by (simp add: w1 Nil)
  ultimately obtain s w' where "kernel_sigwait (Thrsigdivert (sigmask (ffsll (ucast ps))) ts) (sigmask (ffsll (ucast ps))) ts w1 = (Inr s, w')"
    using kernel_sigwait_quiet by blast
  with td show ?thesis by (simp add: thrsigdivert_def)
next
  case (Cons a es)
  have "script w1 = tl (script w)"
    using script_has_pending [of ctx w] hp by simp
  moreover have "script (snd (thrsigdivert (sigmask (ffsll (ucast ps))) ts w1)) = tl (script w1)"
    by (simp add: thrsigdivert_def)
  then have "script w2 = tl (script w1)"
    using td by simp
  ultimately show ?thesis using Cons by (cases es) simp_all
qed

function signalfd_ctx_read_impl_openbsd ::
    "32 SignalFDCtx \<Rightarrow> 32 word \<Rightarrow> 32 world \<Rightarrow> errno_t \<times> 32 word \<times> 32 world" where
  "signalfd_ctx_read_impl_openbsd signalfd ident w =
     (case signalfd_has_pending signalfd w of
        (Inl ec, w1) \<Rightarrow> (Some ec, ident, w1)
      | (Inr (has_pending, pending_sigs), w1) \<Rightarrow>
          if \<not> has_pending then (Some EAGAIN, ident, w1)
          else
            (let signum = ffsll (ucast pending_sigs);
                 mask = sigmask signum
             in case thrsigdivert mask invalid_timeout w1 of
                  (Inl err, w2) \<Rightarrow>
                    if err = EINVAL \<or> err = EAGAIN
                    then signalfd_ctx_read_impl_openbsd signalfd ident w2
                    else (Some err, ident, w2)
                | (Inr s, w2) \<Rightarrow> (None, word_of_nat s, w2)))"
  by pat_completeness auto
termination
proof (relation "measure (\<lambda>(signalfd, ident, w). length (script w))")
  show "wf (measure (\<lambda>(signalfd, ident, w). length (script w)))" by simp
next
  fix signalfd :: "32 SignalFDCtx" and ident :: "32 word" and w w1 w2 :: "32 world"
    and x1 x2 x3 has_pending pending_sigs signum mask y1 err
  assume "(x1, w1) = signalfd_has_pending signalfd w" "x1 = Inr x2"
    "(has_pending, pending_sigs) = x2" "\<not> \<not> has_pending"
    "signum = ffsll (ucast pending_sigs)" "mask = sigmask signum"
    "(y1, w2) = thrsigdivert mask invalid_timeout w1" "y1 = Inl err"
    "err = EINVAL \<or> err = EAGAIN"
  then have "length (script w2) < length (script w)"
    using retry_consumes_script [of signalfd w pending_sigs w1 invalid_timeout err w2] by simp
  then show "((signalfd, ident, w2), signalfd, ident, w) \<in> measure (\<lambda>(signalfd, ident, w). length (script w))"
    by simp
qed

text \<open>
  The equation of the loop is unfolded by hand, one round at a time, never by the
  simplifier.
\<close>

declare signalfd_ctx_read_impl_openbsd.simps [simp del]

text \<open>\<open>signalfd_ctx_read\<close> (lines 219-232) over the OpenBSD claim loop.\<close>

definition signalfd_ctx_read_openbsd ::
    "32 SignalFDCtx \<Rightarrow> 32 word \<Rightarrow> 32 world \<Rightarrow> errno_t \<times> 32 word \<times> 32 world" where
  "signalfd_ctx_read_openbsd signalfd ident w =
     (let w1 = snd (pthread_mutex_lock w);
          (ec, ident', w2) = signalfd_ctx_read_impl_openbsd signalfd ident w1;
          w3 = (if ec = None \<or> ec = Some EAGAIN \<or> ec = Some EWOULDBLOCK
                then snd (signalfd_ctx_clear_signal signalfd False w2)
                else w2);
          w4 = snd (pthread_mutex_unlock w3)
      in (ec, ident', w4))"

section \<open>What the calls leave in the trace\<close>

lemma trace_deliver [simp]: "trace (deliver s w) = trace w"
  by (simp add: deliver_def)

lemma trace_deliver_all [simp]: "trace (deliver_all ss w) = trace w"
  unfolding deliver_all_def by (induction ss arbitrary: w) simp_all

lemma trace_next_event [simp]: "trace (snd (next_event c w)) = trace w @ [c]"
  by (simp add: next_event_def split: list.splits)

lemma trace_kqueue_event_terminate [simp]:
  "trace (snd (kqueue_event_terminate w)) = trace w @ [Kqueue_event_terminate]"
  by (simp add: kqueue_event_terminate_def split_beta split: option.splits)

lemma trace_mutex_destroy [simp]:
  "trace (snd (pthread_mutex_destroy w)) = trace w @ [Mutex_destroy]"
  by (simp add: pthread_mutex_destroy_def split_beta)

section \<open>Teardown\<close>

text \<open>
  C8. \<open>signalfd_ctx_terminate\<close> issues both teardown calls, \<open>kqueue_event_terminate\<close> and
  then \<open>pthread_mutex_destroy\<close>, whatever the first one returns: the trace grows by
  exactly these two calls and the final world is the one the second call leaves behind
  the first. The value returned is the first error met, and success when both succeed.
\<close>

theorem terminate_attempts_both:
  "trace (snd (signalfd_ctx_terminate signalfd w)) =
     trace w @ [Kqueue_event_terminate, Mutex_destroy]
   \<and> snd (signalfd_ctx_terminate signalfd w) =
       snd (pthread_mutex_destroy (snd (kqueue_event_terminate w)))
   \<and> fst (signalfd_ctx_terminate signalfd w) =
       (case fst (kqueue_event_terminate w) of
          Some e \<Rightarrow> Some e
        | None \<Rightarrow> fst (pthread_mutex_destroy (snd (kqueue_event_terminate w))))"
  by (simp add: signalfd_ctx_terminate_def split_beta split: option.splits)

text \<open>
  A teardown in which both steps fail, the first with \<open>EBADF\<close> and the second with
  \<open>EBUSY\<close>: both calls are in the trace and \<open>EBADF\<close> is returned.
\<close>

definition w_teardown :: "32 world" where
  "w_teardown =
     \<lparr>pending = 0, ready = False, observed = [2], slept = 0,
      script = [\<lparr>arrivals = [], failure = Some EBADF, choice = 0\<rparr>,
                \<lparr>arrivals = [], failure = Some EBUSY, choice = 0\<rparr>],
      trace = []\<rparr>"

theorem terminate_attempts_both_witness:
  "fst (signalfd_ctx_terminate \<lparr>kq = 3, sigs = 2\<rparr> w_teardown) = Some EBADF \<and>
   trace (snd (signalfd_ctx_terminate \<lparr>kq = 3, sigs = 2\<rparr> w_teardown)) =
     [Kqueue_event_terminate, Mutex_destroy]"
  using terminate_attempts_both [of "\<lparr>kq = 3, sigs = 2\<rparr>" w_teardown]
  by (simp add: w_teardown_def kqueue_event_terminate_def next_event_def deliver_all_def)

section \<open>The ready bit and the pending set\<close>

text \<open>
  The ready bit of the registration is a cache of "some signal of the set is pending".
  \<open>no_lost\<close> and \<open>no_spurious\<close> are the two halves of its being right, \<open>in_step\<close> is
  both. \<open>registered_for\<close> says that the live observer entries are the ones
  \<open>signalfd_ctx_init\<close> registers for the set of the context, and \<open>calm\<close> that no call
  still to come is made to fail by the environment (signals may arrive at any call).
\<close>

definition calm :: "('a::len) world \<Rightarrow> bool" where
  "calm w = (\<forall>e \<in> set (script w). failure e = None)"

definition registered_for :: "('a::len) SignalFDCtx \<Rightarrow> 'a world \<Rightarrow> bool" where
  "registered_for ctx w =
     (set (observed w) = set (filter (sigismember (sigs ctx)) [1..<Suc (SIG_MAXSIG (sigs ctx))]))"






lemma and_nonzero_bit:
  fixes p m :: "'a::len word"
  shows "p AND m \<noteq> 0 \<longleftrightarrow> (\<exists>n. bit p n \<and> bit m n)"
proof
  assume "p AND m \<noteq> 0"
  then obtain n where "bit (p AND m) n" by (auto simp: bit_eq_iff)
  then show "\<exists>n. bit p n \<and> bit m n" by (auto simp: bit_and_iff)
next
  assume "\<exists>n. bit p n \<and> bit m n"
  then obtain n where "bit (p AND m) n" by (auto simp: bit_and_iff)
  then show "p AND m \<noteq> 0" by auto
qed


subsection \<open>deliver\<close>

lemma observed_deliver [simp]: "observed (deliver s w) = observed w"
  by (simp add: deliver_def)

lemma pending_deliver_mono: "bit (pending w) n \<Longrightarrow> bit (pending (deliver s w)) n"
  by (auto simp: deliver_def bit_set_bit_iff)

lemma ready_deliver_mono: "ready w \<Longrightarrow> ready (deliver s w)"
  by (simp add: deliver_def)

lemma registered_for_deliver [simp]: "registered_for ctx (deliver s w) = registered_for ctx w"
  by (simp add: registered_for_def)



subsection \<open>deliver_all\<close>

lemma observed_deliver_all [simp]: "observed (deliver_all ss w) = observed w"
  unfolding deliver_all_def by (induction ss arbitrary: w) simp_all

lemma pending_deliver_all_mono: "bit (pending w) n \<Longrightarrow> bit (pending (deliver_all ss w)) n"
  unfolding deliver_all_def by (induction ss arbitrary: w) (simp_all add: pending_deliver_mono)

lemma ready_deliver_all_mono: "ready w \<Longrightarrow> ready (deliver_all ss w)"
  unfolding deliver_all_def by (induction ss arbitrary: w) (simp_all add: ready_deliver_mono)

lemma registered_for_deliver_all [simp]:
  "registered_for ctx (deliver_all ss w) = registered_for ctx w"
  by (simp add: registered_for_def)



subsection \<open>next_event\<close>

lemma next_event_cases:
  obtains "script w = []" "next_event c w = (quiet, w\<lparr>trace := trace w @ [c]\<rparr>)"
  | e es where "script w = e # es"
      "next_event c w = (e, (deliver_all (arrivals e) w)\<lparr>script := es, trace := trace w @ [c]\<rparr>)"
  by (cases "script w") (simp_all add: next_event_def)

lemma observed_next_event [simp]: "observed (snd (next_event c w)) = observed w"
  by (rule next_event_cases [of w c]) simp_all

lemma pending_next_event_mono:
  "bit (pending w) n \<Longrightarrow> bit (pending (snd (next_event c w))) n"
  by (rule next_event_cases [of w c]) (simp_all add: pending_deliver_all_mono)

lemma ready_next_event_mono: "ready w \<Longrightarrow> ready (snd (next_event c w))"
  by (rule next_event_cases [of w c]) (simp_all add: ready_deliver_all_mono)

lemma registered_for_next_event [simp]:
  "registered_for ctx (snd (next_event c w)) = registered_for ctx w"
  by (simp add: registered_for_def)



lemma calm_next_event: "calm w \<Longrightarrow> calm (snd (next_event c w)) \<and> failure (fst (next_event c w)) = None"
  by (rule next_event_cases [of w c]) (simp_all add: calm_def quiet_def)

lemma pending_and_mono:
  fixes p p' m :: "'a::len word"
  assumes "\<And>n. bit p n \<Longrightarrow> bit p' n" and "p AND m \<noteq> 0"
  shows "p' AND m \<noteq> 0"
  using assms by (auto simp: and_nonzero_bit)

section \<open>Reconciliation: \<open>signalfd_ctx_clear_signal\<close>\<close>

lemma has_pending_unfold:
  "signalfd_has_pending ctx w =
     (case failure (fst (next_event Sigpending w)) of
        Some err \<Rightarrow> (Inl err, snd (next_event Sigpending w))
      | None \<Rightarrow>
          (Inr (pending (snd (next_event Sigpending w)) AND sigs ctx \<noteq> 0,
                pending (snd (next_event Sigpending w)) AND sigs ctx),
           snd (next_event Sigpending w)))"
  by (simp add: signalfd_has_pending_def sigpending_def sigandset_def sigisemptyset_def
      split_beta Let_def split: option.splits)

lemma has_pending_calm:
  "calm w \<Longrightarrow>
   signalfd_has_pending ctx w =
     (Inr (pending (snd (next_event Sigpending w)) AND sigs ctx \<noteq> 0,
           pending (snd (next_event Sigpending w)) AND sigs ctx),
      snd (next_event Sigpending w))"
  by (simp add: has_pending_unfold calm_next_event)

lemma kqueue_event_clear_unfold:
  "kqueue_event_clear w = (snd (next_event Kqueue_event_clear w))\<lparr>ready := False\<rparr>"
  by (simp add: kqueue_event_clear_def split_beta)

lemma trigger_manually_calm:
  "calm w \<Longrightarrow>
   signalfd_ctx_trigger_manually ctx w =
     (None, (snd (next_event Kqueue_event_trigger w))\<lparr>ready := True\<rparr>)"
  by (simp add: signalfd_ctx_trigger_manually_def kqueue_event_trigger_def split_beta
      calm_next_event)

lemma calm_ready_update [simp]: "calm (w\<lparr>ready := b\<rparr>) = calm w"
  by (simp add: calm_def)

lemma registered_for_ready_update [simp]:
  "registered_for ctx (w\<lparr>ready := b\<rparr>) = registered_for ctx w"
  by (simp add: registered_for_def)




lemma registered_for_has_pending [simp]:
  "registered_for ctx (snd (signalfd_has_pending c w)) = registered_for ctx w"
  by (simp add: has_pending_unfold split: option.splits)

lemma registered_for_trigger [simp]:
  "registered_for ctx (snd (signalfd_ctx_trigger_manually c w)) = registered_for ctx w"
  by (simp add: signalfd_ctx_trigger_manually_def kqueue_event_trigger_def split_beta
      split: option.splits)

lemma registered_for_clear [simp]:
  "registered_for ctx (kqueue_event_clear w) = registered_for ctx w"
  by (simp add: kqueue_event_clear_unfold)

lemma registered_for_clear_and_recheck [simp]:
  "registered_for ctx (snd (clear_and_recheck c w)) = registered_for ctx w"
  by (simp add: clear_and_recheck_def split_beta Let_def)

lemma registered_for_clear_signal [simp]:
  "registered_for ctx (snd (signalfd_ctx_clear_signal c t w)) = registered_for ctx w"
  by (simp add: signalfd_ctx_clear_signal_def split_beta)

text \<open>The definitions a concrete run of the reconciliation step unfolds.\<close>

lemmas world_defs =
  signalfd_ctx_clear_signal_def clear_and_recheck_def failed_or_pending_def
  signalfd_has_pending_def sigpending_def sigandset_def sigisemptyset_def
  signalfd_ctx_trigger_manually_def kqueue_event_trigger_def kqueue_event_clear_def
  next_event_def deliver_all_def deliver_def quiet_def

text \<open>A monitor for the set {1}.\<close>

definition ctx_1 :: "32 SignalFDCtx" where
  "ctx_1 = \<lparr>kq = 3, sigs = 1\<rparr>"

section \<open>Reconciliation when a pending-set query fails\<close>

lemma trigger_manually_ready:
  "fst (signalfd_ctx_trigger_manually signalfd w) = None \<Longrightarrow>
   ready (snd (signalfd_ctx_trigger_manually signalfd w))"
  by (simp add: signalfd_ctx_trigger_manually_def kqueue_event_trigger_def split_beta
      split: option.splits)

lemma clear_and_recheck_failed_or_pending:
  assumes "failed_or_pending (fst (signalfd_has_pending signalfd (kqueue_event_clear w)))"
  shows "clear_and_recheck signalfd w =
     (True, snd (signalfd_ctx_trigger_manually signalfd
                   (snd (signalfd_has_pending signalfd (kqueue_event_clear w)))))"
  using assms by (simp add: clear_and_recheck_def split_beta Let_def)

text \<open>
  C9. A pending-set query of \<open>signalfd_ctx_clear_signal\<close> that fails is treated like one
  that finds a signal pending. Before the clear (first conjunct, \<open>was_triggered\<close>): the
  step returns \<open>true\<close> and does nothing but the query, so the ready bit is as it was.
  After the clear (second conjunct, entered without \<open>was_triggered\<close>; third conjunct,
  entered with it after a first query that found nothing): the step returns \<open>true\<close> and
  its last act is the force-ready call, exactly as when the query succeeds and reports
  a pending signal (\<open>Inr (True, ps)\<close>); when that call succeeds the ready bit is set.
  A failed query thus never makes the step report not-ready.
\<close>

theorem query_failure_reports_ready:
  "(fst (signalfd_has_pending signalfd w) = Inl ec \<longrightarrow>
      signalfd_ctx_clear_signal signalfd True w = (True, snd (signalfd_has_pending signalfd w)))
   \<and> ((fst (signalfd_has_pending signalfd (kqueue_event_clear w)) = Inl ec
        \<or> fst (signalfd_has_pending signalfd (kqueue_event_clear w)) = Inr (True, ps)) \<longrightarrow>
      signalfd_ctx_clear_signal signalfd False w =
        (True, snd (signalfd_ctx_trigger_manually signalfd
                      (snd (signalfd_has_pending signalfd (kqueue_event_clear w)))))
      \<and> (fst (signalfd_ctx_trigger_manually signalfd
                 (snd (signalfd_has_pending signalfd (kqueue_event_clear w)))) = None \<longrightarrow>
           ready (snd (signalfd_ctx_clear_signal signalfd False w))))
   \<and> (fst (signalfd_has_pending signalfd w) = Inr (False, ps') \<and>
       fst (signalfd_has_pending signalfd
              (kqueue_event_clear (snd (signalfd_has_pending signalfd w)))) = Inl ec \<longrightarrow>
      signalfd_ctx_clear_signal signalfd True w =
        (True, snd (signalfd_ctx_trigger_manually signalfd
                      (snd (signalfd_has_pending signalfd
                              (kqueue_event_clear (snd (signalfd_has_pending signalfd w))))))))"
proof (intro conjI impI)
  assume "fst (signalfd_has_pending signalfd w) = Inl ec"
  then show "signalfd_ctx_clear_signal signalfd True w = (True, snd (signalfd_has_pending signalfd w))"
    by (simp add: signalfd_ctx_clear_signal_def split_beta failed_or_pending_def)
next
  assume a: "fst (signalfd_has_pending signalfd (kqueue_event_clear w)) = Inl ec
        \<or> fst (signalfd_has_pending signalfd (kqueue_event_clear w)) = Inr (True, ps)"
  then have "failed_or_pending (fst (signalfd_has_pending signalfd (kqueue_event_clear w)))"
    by (auto simp: failed_or_pending_def)
  then show r: "signalfd_ctx_clear_signal signalfd False w =
        (True, snd (signalfd_ctx_trigger_manually signalfd
                      (snd (signalfd_has_pending signalfd (kqueue_event_clear w)))))"
    by (simp add: signalfd_ctx_clear_signal_def clear_and_recheck_failed_or_pending)
  assume "fst (signalfd_ctx_trigger_manually signalfd
                 (snd (signalfd_has_pending signalfd (kqueue_event_clear w)))) = None"
  then show "ready (snd (signalfd_ctx_clear_signal signalfd False w))"
    by (simp add: r trigger_manually_ready)
next
  assume a: "fst (signalfd_has_pending signalfd w) = Inr (False, ps') \<and>
       fst (signalfd_has_pending signalfd
              (kqueue_event_clear (snd (signalfd_has_pending signalfd w)))) = Inl ec"
  then have "failed_or_pending (fst (signalfd_has_pending signalfd
              (kqueue_event_clear (snd (signalfd_has_pending signalfd w)))))"
    by (simp add: failed_or_pending_def)
  then show "signalfd_ctx_clear_signal signalfd True w =
        (True, snd (signalfd_ctx_trigger_manually signalfd
                      (snd (signalfd_has_pending signalfd
                              (kqueue_event_clear (snd (signalfd_has_pending signalfd w)))))))"
    using a by (simp add: signalfd_ctx_clear_signal_def split_beta failed_or_pending_def
        clear_and_recheck_failed_or_pending)
qed

text \<open>
  Three runs with nothing pending, on the set {1}: the first query of poll's path fails;
  the query after the clear fails, entered from read; the same entered from poll. Each
  reports ready; the last two leave the ready bit set with nothing pending, a spurious
  readiness.
\<close>

definition w_poll_query_fails :: "32 world" where
  "w_poll_query_fails =
     \<lparr>pending = 0, ready = False, observed = [1], slept = 0,
      script = [\<lparr>arrivals = [], failure = Some EFAULT, choice = 0\<rparr>],
      trace = []\<rparr>"

definition w_read_recheck_fails :: "32 world" where
  "w_read_recheck_fails =
     \<lparr>pending = 0, ready = False, observed = [1], slept = 0,
      script = [\<lparr>arrivals = [], failure = None, choice = 0\<rparr>,
                \<lparr>arrivals = [], failure = Some EINTR, choice = 0\<rparr>],
      trace = []\<rparr>"

definition w_recheck_fails :: "32 world" where
  "w_recheck_fails =
     \<lparr>pending = 0, ready = True, observed = [1], slept = 0,
      script = [\<lparr>arrivals = [], failure = None, choice = 0\<rparr>,
                \<lparr>arrivals = [], failure = None, choice = 0\<rparr>,
                \<lparr>arrivals = [], failure = Some ENOMEM, choice = 0\<rparr>],
      trace = []\<rparr>"

theorem query_failure_reports_ready_witness:
  "signalfd_ctx_clear_signal ctx_1 True w_poll_query_fails =
     (True, \<lparr>pending = 0, ready = False, observed = [1], slept = 0, script = [], trace = [Sigpending]\<rparr>)
   \<and> signalfd_ctx_clear_signal ctx_1 False w_read_recheck_fails =
     (True, \<lparr>pending = 0, ready = True, observed = [1], slept = 0, script = [],
            trace = [Kqueue_event_clear, Sigpending, Kqueue_event_trigger]\<rparr>)
   \<and> signalfd_ctx_clear_signal ctx_1 True w_recheck_fails =
     (True, \<lparr>pending = 0, ready = True, observed = [1], slept = 0, script = [],
            trace = [Sigpending, Kqueue_event_clear, Sigpending, Kqueue_event_trigger]\<rparr>)"
  using query_failure_reports_ready [of ctx_1 w_poll_query_fails EFAULT 0 0]
    query_failure_reports_ready [of ctx_1 w_read_recheck_fails EINTR 0 0]
    query_failure_reports_ready [of ctx_1 w_recheck_fails ENOMEM 0 0]
  by (simp add: world_defs ctx_1_def w_poll_query_fails_def w_read_recheck_fails_def
      w_recheck_fails_def)

section \<open>The claim step\<close>

subsection \<open>The consuming wait\<close>

lemma sigismember_and:
  "sigismember (p AND m) s \<longleftrightarrow> sigismember p s \<and> sigismember m s"
  by (auto simp: sigismember_def bit_and_iff)

lemma sigismember_ffs:
  fixes x :: "'a::len word"
  shows "x \<noteq> 0 \<Longrightarrow> sigismember x (ffs x)"
  using ffs_bit [of x] by (simp add: sigismember_def)

lemma kernel_sigwait_claims:
  assumes "kernel_sigwait c m ts w = (Inr s, w')"
  shows "sigismember m s \<and> sigismember (pending (snd (next_event c w))) s \<and>
         w' = (snd (next_event c w))\<lparr>pending := unset_bit (s - 1) (pending (snd (next_event c w)))\<rparr>"
proof -
  define W where "W = snd (next_event c w)"
  define e where "e = fst (next_event c w)"
  define s0 where "s0 = (if sigismember (pending W AND m) (choice e) then choice e
                         else ffs (pending W AND m))"
  have u: "kernel_sigwait c m ts w =
      (case failure e of
         Some err \<Rightarrow> (Inl err, W)
       | None \<Rightarrow>
           if pending W AND m = 0
           then (if \<not> timespec_valid ts then (Inl EINVAL, W)
                 else if tv_sec ts = 0 \<and> tv_nsec ts = 0 then (Inl EAGAIN, W)
                 else (Inl EAGAIN, W\<lparr>slept := Suc (slept W)\<rparr>))
           else (Inr s0, W\<lparr>pending := unset_bit (s0 - 1) (pending W)\<rparr>))"
    unfolding W_def e_def s0_def
    by (simp add: kernel_sigwait_def split_beta Let_def split: option.splits)
  have f: "failure e = None"
    using assms unfolding u by (cases "failure e") simp_all
  have nz: "pending W AND m \<noteq> 0"
    using assms unfolding u f by (auto split: if_splits)
  have "(Inr s0 :: errno + nat, W\<lparr>pending := unset_bit (s0 - 1) (pending W)\<rparr>) = (Inr s, w')"
    using assms nz unfolding u f by auto
  then have s: "s = s0" and w'0: "w' = W\<lparr>pending := unset_bit (s0 - 1) (pending W)\<rparr>"
    by auto
  have w': "w' = W\<lparr>pending := unset_bit (s - 1) (pending W)\<rparr>"
    unfolding s by (rule w'0)
  have "sigismember (pending W AND m) s0"
    using nz by (simp add: s0_def sigismember_ffs)
  with s w' show ?thesis by (simp add: sigismember_and W_def)
qed

lemma kernel_sigwait_fails:
  assumes "kernel_sigwait c m ts w = (Inl e, w')"
  shows "pending w' = pending (snd (next_event c w)) \<and> ready w' = ready (snd (next_event c w))
       \<and> observed w' = observed (snd (next_event c w)) \<and> script w' = script (snd (next_event c w))
       \<and> trace w' = trace (snd (next_event c w))"
  using assms
  by (simp add: kernel_sigwait_def split_beta Let_def split: option.splits if_splits)
    auto

subsection \<open>Signals that stay pending\<close>

definition keeps :: "('a::len) word \<Rightarrow> 'a world \<Rightarrow> 'a world \<Rightarrow> bool" where
  "keeps m w w' = (\<forall>n. bit (pending w) n \<and> \<not> bit m n \<longrightarrow> bit (pending w') n)"

lemma keeps_refl [simp]: "keeps m w w"
  by (simp add: keeps_def)

lemma keeps_trans: "keeps m w w' \<Longrightarrow> keeps m w' w'' \<Longrightarrow> keeps m w w''"
  by (simp add: keeps_def)

lemma keeps_same_pending: "pending w' = pending w \<Longrightarrow> keeps m w w'"
  by (simp add: keeps_def)

lemma keeps_next_event: "keeps m w (snd (next_event c w))"
  by (simp add: keeps_def pending_next_event_mono)

lemma keeps_has_pending: "keeps m w (snd (signalfd_has_pending ctx w))"
  by (simp add: has_pending_unfold keeps_next_event split: option.splits)

lemma keeps_trigger: "keeps m w (snd (signalfd_ctx_trigger_manually ctx w))"
  by (simp add: signalfd_ctx_trigger_manually_def kqueue_event_trigger_def split_beta
      keeps_def pending_next_event_mono split: option.splits)

lemma keeps_clear: "keeps m w (kqueue_event_clear w)"
  by (simp add: kqueue_event_clear_unfold keeps_def pending_next_event_mono)

lemma keeps_clear_and_recheck: "keeps m w (snd (clear_and_recheck ctx w))"
proof -
  have 1: "keeps m w (kqueue_event_clear w)" by (rule keeps_clear)
  have 2: "keeps m (kqueue_event_clear w) (snd (signalfd_has_pending ctx (kqueue_event_clear w)))"
    by (rule keeps_has_pending)
  have 3: "keeps m (snd (signalfd_has_pending ctx (kqueue_event_clear w)))
     (snd (signalfd_ctx_trigger_manually ctx (snd (signalfd_has_pending ctx (kqueue_event_clear w)))))"
    by (rule keeps_trigger)
  from 1 2 3 show ?thesis
    by (auto simp: clear_and_recheck_def split_beta Let_def intro: keeps_trans)
qed

lemma keeps_clear_signal: "keeps m w (snd (signalfd_ctx_clear_signal ctx t w))"
  using keeps_has_pending [of m w ctx] keeps_clear_and_recheck [of m w ctx]
    keeps_clear_and_recheck [of m "snd (signalfd_has_pending ctx w)" ctx]
  by (auto simp: signalfd_ctx_clear_signal_def split_beta intro: keeps_trans)

lemma keeps_lock: "keeps m w (snd (pthread_mutex_lock w))"
  by (simp add: pthread_mutex_lock_def split_beta keeps_next_event)

lemma keeps_unlock: "keeps m w (snd (pthread_mutex_unlock w))"
  by (simp add: pthread_mutex_unlock_def split_beta keeps_next_event)

lemma keeps_kernel_sigwait: "keeps m w (snd (kernel_sigwait c m ts w))"
proof (cases "fst (kernel_sigwait c m ts w)")
  case (Inl e)
  then have "kernel_sigwait c m ts w = (Inl e, snd (kernel_sigwait c m ts w))"
    by (metis prod.collapse)
  from kernel_sigwait_fails [OF this]
  have "pending (snd (kernel_sigwait c m ts w)) = pending (snd (next_event c w))"
    by simp
  then show ?thesis by (simp add: keeps_def pending_next_event_mono)
next
  case (Inr s)
  then have "kernel_sigwait c m ts w = (Inr s, snd (kernel_sigwait c m ts w))"
    by (metis prod.collapse)
  from kernel_sigwait_claims [OF this]
  have m: "sigismember m s"
    and w': "snd (kernel_sigwait c m ts w) =
      (snd (next_event c w))\<lparr>pending := unset_bit (s - 1) (pending (snd (next_event c w)))\<rparr>"
    by simp_all
  show ?thesis
    unfolding keeps_def
  proof (intro allI impI)
    fix n assume n: "bit (pending w) n \<and> \<not> bit m n"
    then have "n \<noteq> s - 1" using m by (auto simp: sigismember_def)
    moreover have "bit (pending (snd (next_event c w))) n"
      using n by (simp add: pending_next_event_mono)
    ultimately show "bit (pending (snd (kernel_sigwait c m ts w))) n"
      by (simp add: w' bit_unset_bit_iff)
  qed
qed

subsection \<open>One round of the OpenBSD loop\<close>

lemma read_impl_openbsd_cases:
  fixes signalfd :: "32 SignalFDCtx"
  obtains
    (query_failed) ec w1 where
      "signalfd_has_pending signalfd w = (Inl ec, w1)"
      "signalfd_ctx_read_impl_openbsd signalfd ident w = (Some ec, ident, w1)"
  | (none_pending) ps w1 where
      "signalfd_has_pending signalfd w = (Inr (False, ps), w1)"
      "signalfd_ctx_read_impl_openbsd signalfd ident w = (Some EAGAIN, ident, w1)"
  | (claimed) ps w1 s w2 where
      "signalfd_has_pending signalfd w = (Inr (True, ps), w1)"
      "thrsigdivert (sigmask (ffsll (ucast ps))) invalid_timeout w1 = (Inr s, w2)"
      "signalfd_ctx_read_impl_openbsd signalfd ident w = (None, word_of_nat s, w2)"
  | (retry) ps w1 err w2 where
      "signalfd_has_pending signalfd w = (Inr (True, ps), w1)"
      "thrsigdivert (sigmask (ffsll (ucast ps))) invalid_timeout w1 = (Inl err, w2)"
      "err = EINVAL \<or> err = EAGAIN"
      "signalfd_ctx_read_impl_openbsd signalfd ident w =
         signalfd_ctx_read_impl_openbsd signalfd ident w2"
  | (wait_failed) ps w1 err w2 where
      "signalfd_has_pending signalfd w = (Inr (True, ps), w1)"
      "thrsigdivert (sigmask (ffsll (ucast ps))) invalid_timeout w1 = (Inl err, w2)"
      "err \<noteq> EINVAL" "err \<noteq> EAGAIN"
      "signalfd_ctx_read_impl_openbsd signalfd ident w = (Some err, ident, w2)"
proof (cases "signalfd_has_pending signalfd w")
  case (Pair r w1)
  show ?thesis
  proof (cases r)
    case (Inl ec)
    with Pair show ?thesis
      by (intro query_failed [of ec w1])
        (simp_all add: signalfd_ctx_read_impl_openbsd.simps [of signalfd ident w])
  next
    case (Inr hp_ps)
    obtain hp ps where hp_ps: "hp_ps = (hp, ps)" by (cases hp_ps)
    show ?thesis
    proof (cases hp)
      case False
      with Pair Inr hp_ps show ?thesis
        by (intro none_pending [of ps w1])
          (simp_all add: signalfd_ctx_read_impl_openbsd.simps [of signalfd ident w])
    next
      case True
      with Pair Inr hp_ps
      have q: "signalfd_has_pending signalfd w = (Inr (True, ps), w1)" by simp
      show ?thesis
      proof (cases "thrsigdivert (sigmask (ffsll (ucast ps))) invalid_timeout w1")
        case wait: (Pair r2 w2)
        show ?thesis
        proof (cases r2)
          case (Inr s)
          with q wait show ?thesis
            by (intro claimed [of ps w1 s w2])
              (simp_all add: signalfd_ctx_read_impl_openbsd.simps [of signalfd ident w])
        next
          case (Inl err)
          show ?thesis
          proof (cases "err = EINVAL \<or> err = EAGAIN")
            case True
            with q wait Inl show ?thesis
              by (intro retry [of ps w1 err w2])
                (simp_all add: signalfd_ctx_read_impl_openbsd.simps [of signalfd ident w])
          next
            case False
            with q wait Inl show ?thesis
              by (intro wait_failed [of ps w1 err w2])
                (simp_all add: signalfd_ctx_read_impl_openbsd.simps [of signalfd ident w])
          qed
        qed
      qed
    qed
  qed
qed

subsection \<open>What a claim hands out\<close>

lemma unat_ident:
  "s < 2 ^ 32 \<Longrightarrow> unat (word_of_nat s :: 32 word) = s"
  by (simp add: unat_of_nat)

lemma has_pending_result:
  assumes "signalfd_has_pending ctx w = (Inr (hp, ps), w1)"
  shows "w1 = snd (next_event Sigpending w) \<and> ps = pending w1 AND sigs ctx \<and> hp = (ps \<noteq> 0)"
  using assms by (auto simp: has_pending_unfold split: option.splits)

lemma sigismember_sigmask:
  assumes "1 \<le> n" "n \<le> 32"
  shows "sigismember (sigmask n) s \<longleftrightarrow> s = n"
  using assms
  by (auto simp: sigismember_def sigmask_def bit_push_bit_iff bit_exp_iff)

lemma keeps_weaken:
  "keeps m w w' \<Longrightarrow> (\<And>n. bit m n \<Longrightarrow> bit m' n) \<Longrightarrow> keeps m' w w'"
  by (auto simp: keeps_def)

lemma bit_sigmask:
  assumes "1 \<le> k" "k \<le> 32"
  shows "bit (sigmask k) n \<longleftrightarrow> n = k - 1"
  using assms by (auto simp: sigmask_def bit_push_bit_iff bit_exp_iff)

text \<open>What a successful claim of the OpenBSD loop body hands out.\<close>

lemma openbsd_claim:
  fixes w :: "32 world"
  assumes q: "signalfd_has_pending ctx w = (Inr (True, ps), w1)"
    and t: "thrsigdivert (sigmask (ffsll (ucast ps))) ts w1 = (Inr s, w2)"
  shows "s = ffsll (ucast ps) \<and> 1 \<le> s \<and> s \<le> 32 \<and> sigismember (sigs ctx) s \<and>
         sigismember ps s \<and> keeps (sigs ctx) w w2"
proof -
  from has_pending_result [OF q] have ps: "ps = pending w1 AND sigs ctx" "ps \<noteq> 0"
    and w1: "w1 = snd (next_event Sigpending w)" by auto
  let ?n = "ffsll (ucast ps)"
  from ffsll_ucast_bit [OF ps(2)] have n: "1 \<le> ?n" "?n \<le> 32" "bit ps (?n - 1)"
    by auto
  from kernel_sigwait_claims [OF t [unfolded thrsigdivert_def]]
  have "sigismember (sigmask ?n) s" by simp
  then have s: "s = ?n" using n by (simp add: sigismember_sigmask)
  have mem: "sigismember ps s" using n s by (simp add: sigismember_def)
  then have mem': "sigismember (sigs ctx) s" by (simp add: ps(1) sigismember_and)
  have "keeps (sigs ctx) w w2"
  proof -
    have 1: "keeps (sigs ctx) w w1" by (simp add: w1 keeps_next_event)
    have "keeps (sigmask ?n) w1 (snd (thrsigdivert (sigmask ?n) ts w1))"
      by (simp add: thrsigdivert_def keeps_kernel_sigwait)
    then have "keeps (sigmask ?n) w1 w2" by (simp add: t)
    then have "keeps (sigs ctx) w1 w2"
    proof (rule keeps_weaken)
      fix k assume "bit (sigmask ?n) k"
      then have "k = ?n - 1" using n by (simp add: bit_sigmask)
      then show "bit (sigs ctx) k" using n(3) by (simp add: ps(1) bit_and_iff)
    qed
    with 1 show ?thesis by (rule keeps_trans)
  qed
  with s n mem mem' show ?thesis by simp
qed

lemma openbsd_wait_fails_keeps:
  fixes w :: "32 world"
  assumes q: "signalfd_has_pending ctx w = (r, w1)"
    and t: "thrsigdivert m ts w1 = (Inl e, w2)"
  shows "keeps m' w w2"
proof -
  have "keeps m' w (snd (signalfd_has_pending ctx w))" by (rule keeps_has_pending)
  then have 1: "keeps m' w w1" by (simp add: q)
  from kernel_sigwait_fails [OF t [unfolded thrsigdivert_def]]
  have "keeps m' w1 w2" by (simp add: keeps_def pending_next_event_mono)
  with 1 show ?thesis by (rule keeps_trans)
qed

lemma read_impl_openbsd_sound:
  fixes w :: "32 world"
  shows "(fst (signalfd_ctx_read_impl_openbsd ctx ident w) = None \<longrightarrow>
            sigismember (sigs ctx) (unat (fst (snd (signalfd_ctx_read_impl_openbsd ctx ident w)))))
         \<and> (fst (signalfd_ctx_read_impl_openbsd ctx ident w) \<noteq> None \<longrightarrow>
            fst (snd (signalfd_ctx_read_impl_openbsd ctx ident w)) = ident)
         \<and> keeps (sigs ctx) w (snd (snd (signalfd_ctx_read_impl_openbsd ctx ident w)))"
proof (induction "length (script w)" arbitrary: w rule: less_induct)
  case less
  show ?case
  proof (cases rule: read_impl_openbsd_cases [of ctx w ident])
    case (query_failed ec w1)
    have "keeps (sigs ctx) w (snd (signalfd_has_pending ctx w))" by (rule keeps_has_pending)
    with query_failed show ?thesis by simp
  next
    case (none_pending ps w1)
    have "keeps (sigs ctx) w (snd (signalfd_has_pending ctx w))" by (rule keeps_has_pending)
    with none_pending show ?thesis by simp
  next
    case (claimed ps w1 s w2)
    have s: "s \<le> 32" "sigismember (sigs ctx) s" "keeps (sigs ctx) w w2"
      using openbsd_claim [OF claimed(1,2)] by blast+
    have "unat (word_of_nat s :: 32 word) = s"
      using s(1) by (simp add: unat_ident)
    with s claimed(3) show ?thesis by simp
  next
    case (retry ps w1 err w2)
    from retry_consumes_script [OF retry(1,2)]
    have "length (script w2) < length (script w)" .
    from less [OF this]
    have ih: "fst (signalfd_ctx_read_impl_openbsd ctx ident w2) = None \<longrightarrow>
            sigismember (sigs ctx) (unat (fst (snd (signalfd_ctx_read_impl_openbsd ctx ident w2))))"
      "fst (signalfd_ctx_read_impl_openbsd ctx ident w2) \<noteq> None \<longrightarrow>
            fst (snd (signalfd_ctx_read_impl_openbsd ctx ident w2)) = ident"
      "keeps (sigs ctx) w2 (snd (snd (signalfd_ctx_read_impl_openbsd ctx ident w2)))"
      by simp_all
    have "keeps (sigs ctx) w w2" using retry(1,2) by (rule openbsd_wait_fails_keeps)
    with ih(3) have "keeps (sigs ctx) w (snd (snd (signalfd_ctx_read_impl_openbsd ctx ident w2)))"
      by (rule keeps_trans [rotated])
    with ih(1,2) show ?thesis by (simp add: retry(4))
  next
    case (wait_failed ps w1 err w2)
    have "keeps (sigs ctx) w w2" using wait_failed(1,2) by (rule openbsd_wait_fails_keeps)
    with wait_failed show ?thesis by simp
  qed
qed

lemma read_impl_sound:
  fixes w :: "('a::len) world"
  shows "(LENGTH('a) < 2 ^ 32 \<and> fst (signalfd_ctx_read_impl ctx ident w) = None \<longrightarrow>
            sigismember (sigs ctx) (unat (fst (snd (signalfd_ctx_read_impl ctx ident w)))))
         \<and> (fst (signalfd_ctx_read_impl ctx ident w) \<noteq> None \<longrightarrow>
            fst (snd (signalfd_ctx_read_impl ctx ident w)) = ident)
         \<and> keeps (sigs ctx) w (snd (snd (signalfd_ctx_read_impl ctx ident w)))"
proof (cases "sigtimedwait (sigs ctx) zero_timeout w")
  case (Pair r w1)
  have k: "keeps (sigs ctx) w (snd (sigtimedwait (sigs ctx) zero_timeout w))"
    by (simp add: sigtimedwait_def keeps_kernel_sigwait)
  show ?thesis
  proof (cases r)
    case (Inl e)
    with Pair k show ?thesis by (simp add: signalfd_ctx_read_impl_def)
  next
    case (Inr s)
    from kernel_sigwait_claims [OF Pair [unfolded Inr sigtimedwait_def]]
    have m: "sigismember (sigs ctx) s" by simp
    then have "s \<le> LENGTH('a)" by (simp add: sigismember_def)
    then have "LENGTH('a) < 2 ^ 32 \<longrightarrow> unat (word_of_nat s :: 32 word) = s"
      by (simp add: unat_ident)
    with Pair Inr k m show ?thesis by (auto simp: signalfd_ctx_read_impl_def)
  qed
qed

section \<open>\<open>signalfd_ctx_read\<close>\<close>

lemma read_unfold:
  "signalfd_ctx_read signalfd ident w =
     (fst (signalfd_ctx_read_impl signalfd ident (snd (pthread_mutex_lock w))),
      fst (snd (signalfd_ctx_read_impl signalfd ident (snd (pthread_mutex_lock w)))),
      snd (pthread_mutex_unlock
        (if fst (signalfd_ctx_read_impl signalfd ident (snd (pthread_mutex_lock w)))
              \<in> {None, Some EAGAIN}
         then snd (signalfd_ctx_clear_signal signalfd False
                (snd (snd (signalfd_ctx_read_impl signalfd ident (snd (pthread_mutex_lock w))))))
         else snd (snd (signalfd_ctx_read_impl signalfd ident (snd (pthread_mutex_lock w)))))))"
  by (simp add: signalfd_ctx_read_def split_beta Let_def)

lemma read_openbsd_unfold:
  "signalfd_ctx_read_openbsd signalfd ident w =
     (fst (signalfd_ctx_read_impl_openbsd signalfd ident (snd (pthread_mutex_lock w))),
      fst (snd (signalfd_ctx_read_impl_openbsd signalfd ident (snd (pthread_mutex_lock w)))),
      snd (pthread_mutex_unlock
        (if fst (signalfd_ctx_read_impl_openbsd signalfd ident (snd (pthread_mutex_lock w)))
              \<in> {None, Some EAGAIN}
         then snd (signalfd_ctx_clear_signal signalfd False
                (snd (snd (signalfd_ctx_read_impl_openbsd signalfd ident
                             (snd (pthread_mutex_lock w))))))
         else snd (snd (signalfd_ctx_read_impl_openbsd signalfd ident
                          (snd (pthread_mutex_lock w)))))))"
  by (simp add: signalfd_ctx_read_openbsd_def split_beta Let_def)

lemma keeps_read: "keeps (sigs signalfd) w (snd (snd (signalfd_ctx_read signalfd ident w)))"
proof -
  let ?w1 = "snd (pthread_mutex_lock w)"
  let ?w2 = "snd (snd (signalfd_ctx_read_impl signalfd ident ?w1))"
  let ?w3 = "snd (signalfd_ctx_clear_signal signalfd False ?w2)"
  have 1: "keeps (sigs signalfd) w ?w1" by (rule keeps_lock)
  have 2: "keeps (sigs signalfd) ?w1 ?w2" using read_impl_sound [of signalfd ident ?w1] by blast
  have 3: "keeps (sigs signalfd) ?w2 ?w3" by (rule keeps_clear_signal)
  have 12: "keeps (sigs signalfd) w ?w2" using 1 2 by (rule keeps_trans)
  have 13: "keeps (sigs signalfd) w ?w3" using 12 3 by (rule keeps_trans)
  have "keeps (sigs signalfd) w (snd (pthread_mutex_unlock ?w2))"
    using 12 keeps_unlock by (rule keeps_trans)
  moreover have "keeps (sigs signalfd) w (snd (pthread_mutex_unlock ?w3))"
    using 13 keeps_unlock by (rule keeps_trans)
  ultimately show ?thesis by (simp add: read_unfold)
qed

lemma keeps_read_openbsd:
  "keeps (sigs signalfd) w (snd (snd (signalfd_ctx_read_openbsd signalfd ident w)))"
proof -
  let ?w1 = "snd (pthread_mutex_lock w)"
  let ?w2 = "snd (snd (signalfd_ctx_read_impl_openbsd signalfd ident ?w1))"
  let ?w3 = "snd (signalfd_ctx_clear_signal signalfd False ?w2)"
  have 1: "keeps (sigs signalfd) w ?w1" by (rule keeps_lock)
  have 2: "keeps (sigs signalfd) ?w1 ?w2"
    using read_impl_openbsd_sound [of signalfd ident ?w1] by blast
  have 3: "keeps (sigs signalfd) ?w2 ?w3" by (rule keeps_clear_signal)
  have 12: "keeps (sigs signalfd) w ?w2" using 1 2 by (rule keeps_trans)
  have 13: "keeps (sigs signalfd) w ?w3" using 12 3 by (rule keeps_trans)
  have "keeps (sigs signalfd) w (snd (pthread_mutex_unlock ?w2))"
    using 12 keeps_unlock by (rule keeps_trans)
  moreover have "keeps (sigs signalfd) w (snd (pthread_mutex_unlock ?w3))"
    using 13 keeps_unlock by (rule keeps_trans)
  ultimately show ?thesis by (simp add: read_openbsd_unfold)
qed

text \<open>
  C3. Whenever \<open>signalfd_ctx_read\<close> returns 0, the identifier it stored is a member of
  the signal set of the context, and whatever it returns, every signal outside the set
  that was pending before the call is still pending after it: nothing outside the set
  is claimed. Both hold for the \<open>sigtimedwait\<close> variant (the signal number comes back
  as a C \<open>int\<close> and is stored as \<open>uint32_t\<close>, so the set type is taken to have fewer
  than \<open>2 ^ 32\<close> signals) and for the OpenBSD variant.
\<close>

theorem read_ident_in_signal_set:
  fixes w :: "('a::len) world" and w' :: "32 world"
  shows
  "(LENGTH('a) < 2 ^ 32 \<and> fst (signalfd_ctx_read signalfd ident w) = None \<longrightarrow>
      sigismember (sigs signalfd) (unat (fst (snd (signalfd_ctx_read signalfd ident w)))))
   \<and> (\<forall>n. bit (pending w) n \<and> \<not> bit (sigs signalfd) n \<longrightarrow>
          bit (pending (snd (snd (signalfd_ctx_read signalfd ident w)))) n)
   \<and> (fst (signalfd_ctx_read_openbsd signalfd' ident' w') = None \<longrightarrow>
      sigismember (sigs signalfd')
        (unat (fst (snd (signalfd_ctx_read_openbsd signalfd' ident' w')))))
   \<and> (\<forall>n. bit (pending w') n \<and> \<not> bit (sigs signalfd') n \<longrightarrow>
          bit (pending (snd (snd (signalfd_ctx_read_openbsd signalfd' ident' w')))) n)"
  using read_impl_sound [of signalfd ident "snd (pthread_mutex_lock w)"]
    read_impl_openbsd_sound [of signalfd' ident' "snd (pthread_mutex_lock w')"]
    keeps_read [of signalfd w ident] keeps_read_openbsd [of signalfd' w' ident']
  by (simp add: read_unfold read_openbsd_unfold keeps_def)

text \<open>
  C10. When \<open>signalfd_ctx_read\<close> returns anything but 0 (\<open>EAGAIN\<close> or any other error
  number), the value \<open>ident\<close> points to is the one it was before the call; in both
  variants.
\<close>

theorem read_leaves_ident_on_failure:
  fixes w :: "('a::len) world" and w' :: "32 world"
  shows
  "(fst (signalfd_ctx_read signalfd ident w) \<noteq> None \<longrightarrow>
      fst (snd (signalfd_ctx_read signalfd ident w)) = ident)
   \<and> (fst (signalfd_ctx_read_openbsd signalfd' ident' w') \<noteq> None \<longrightarrow>
      fst (snd (signalfd_ctx_read_openbsd signalfd' ident' w')) = ident')"
  using read_impl_sound [of signalfd ident "snd (pthread_mutex_lock w)"]
    read_impl_openbsd_sound [of signalfd' ident' "snd (pthread_mutex_lock w')"]
  by (simp add: read_unfold read_openbsd_unfold)

subsection \<open>Concrete reads\<close>

text \<open>The set {3}, with signals 2 and 3 pending.\<close>

definition ctx_3 :: "32 SignalFDCtx" where
  "ctx_3 = \<lparr>kq = 3, sigs = 4\<rparr>"

definition w_two_pending :: "32 world" where
  "w_two_pending = \<lparr>pending = 6, ready = True, observed = [3], slept = 0, script = [], trace = []\<rparr>"


lemma ffs_4: "ffs (4 :: 32 word) = 3"
  by code_simp

lemma ffsll_4: "ffsll 4 = 3"
  unfolding ffsll_def by code_simp

lemmas read_defs =
  signalfd_ctx_read_def signalfd_ctx_read_impl_def sigtimedwait_def thrsigdivert_def
  kernel_sigwait_def pthread_mutex_lock_def pthread_mutex_unlock_def sigismember_def
  zero_timeout_def invalid_timeout_def timespec_valid_def signalfd_ctx_read_openbsd_def

lemma read_two_pending:
  "signalfd_ctx_read ctx_3 0 w_two_pending =
     (None, 3, \<lparr>pending = 2, ready = False, observed = [3], slept = 0, script = [],
       trace = [Mutex_lock, Sigtimedwait 4 zero_timeout, Kqueue_event_clear, Sigpending, Mutex_unlock]\<rparr>)"
  by (simp add: read_defs world_defs ctx_3_def w_two_pending_def ffs_4)

lemma read_impl_openbsd_two_pending:
  "signalfd_ctx_read_impl_openbsd ctx_3 0 (w_two_pending\<lparr>trace := [Mutex_lock]\<rparr>) = 
     (None, 3, \<lparr>pending = 2, ready = True, observed = [3], slept = 0, script = [],
       trace = [Mutex_lock, Sigpending, Thrsigdivert 4 invalid_timeout]\<rparr>)"
  by (subst signalfd_ctx_read_impl_openbsd.simps)
    (simp add: read_defs world_defs ctx_3_def w_two_pending_def ffs_4 ffsll_4 sigmask_def)

lemma read_openbsd_two_pending:
  "signalfd_ctx_read_openbsd ctx_3 0 w_two_pending =
     (None, 3, \<lparr>pending = 2, ready = False, observed = [3], slept = 0, script = [],
       trace = [Mutex_lock, Sigpending, Thrsigdivert 4 invalid_timeout, Kqueue_event_clear, Sigpending, Mutex_unlock]\<rparr>)"
proof -
  have "snd (pthread_mutex_lock w_two_pending) = w_two_pending\<lparr>trace := [Mutex_lock]\<rparr>"
    by (simp add: pthread_mutex_lock_def next_event_def w_two_pending_def)
  then show ?thesis
    by (simp add: signalfd_ctx_read_openbsd_def read_impl_openbsd_two_pending Let_def)
      (simp add: read_defs world_defs ctx_3_def w_two_pending_def)
qed

theorem read_ident_in_signal_set_witness:
  "fst (signalfd_ctx_read ctx_3 0 w_two_pending) = None
   \<and> sigismember (sigs ctx_3) (unat (fst (snd (signalfd_ctx_read ctx_3 0 w_two_pending))))
   \<and> fst (snd (signalfd_ctx_read ctx_3 0 w_two_pending)) = 3
   \<and> pending (snd (snd (signalfd_ctx_read ctx_3 0 w_two_pending))) = 2
   \<and> fst (signalfd_ctx_read_openbsd ctx_3 0 w_two_pending) = None
   \<and> sigismember (sigs ctx_3) (unat (fst (snd (signalfd_ctx_read_openbsd ctx_3 0 w_two_pending))))
   \<and> fst (snd (signalfd_ctx_read_openbsd ctx_3 0 w_two_pending)) = 3
   \<and> pending (snd (snd (signalfd_ctx_read_openbsd ctx_3 0 w_two_pending))) = 2"
  using read_ident_in_signal_set [of ctx_3 0 w_two_pending ctx_3 0 w_two_pending]
  by (simp add: read_two_pending read_openbsd_two_pending)

text \<open>
  Two failing reads with \<open>ident\<close> pointing to 7, on the set {3} with only signal 2
  pending: nothing to claim (\<open>EAGAIN\<close>), and on OpenBSD a query that fails with
  \<open>EFAULT\<close>.
\<close>

definition w_other_pending :: "32 world" where
  "w_other_pending =
     \<lparr>pending = 2, ready = False, observed = [3], slept = 0, script = [], trace = []\<rparr>"

definition w_pending_query_fails :: "32 world" where
  "w_pending_query_fails =
     \<lparr>pending = 2, ready = False, observed = [3], slept = 0,
      script = [\<lparr>arrivals = [], failure = None, choice = 0\<rparr>,
                \<lparr>arrivals = [], failure = Some EFAULT, choice = 0\<rparr>],
      trace = []\<rparr>"

lemma read_other_pending:
  "signalfd_ctx_read ctx_3 7 w_other_pending =
     (Some EAGAIN, 7,
      \<lparr>pending = 2, ready = False, observed = [3], slept = 0, script = [],
         trace = [Mutex_lock, Sigtimedwait 4 zero_timeout, Kqueue_event_clear, Sigpending,
                  Mutex_unlock]\<rparr>)"
  by (simp add: read_defs world_defs ctx_3_def w_other_pending_def)

lemma read_impl_openbsd_query_fails:
  "signalfd_ctx_read_impl_openbsd ctx_3 7 (snd (pthread_mutex_lock w_pending_query_fails)) =
     (Some EFAULT, 7,
      \<lparr>pending = 2, ready = False, observed = [3], slept = 0, script = [],
         trace = [Mutex_lock, Sigpending]\<rparr>)"
  by (subst signalfd_ctx_read_impl_openbsd.simps)
    (simp add: read_defs world_defs ctx_3_def w_pending_query_fails_def)

lemma read_openbsd_query_fails:
  "signalfd_ctx_read_openbsd ctx_3 7 w_pending_query_fails =
     (Some EFAULT, 7,
      \<lparr>pending = 2, ready = False, observed = [3], slept = 0, script = [],
         trace = [Mutex_lock, Sigpending, Mutex_unlock]\<rparr>)"
  by (simp add: signalfd_ctx_read_openbsd_def read_impl_openbsd_query_fails Let_def)
    (simp add: read_defs world_defs)

theorem read_leaves_ident_on_failure_witness:
  "fst (signalfd_ctx_read ctx_3 7 w_other_pending) = Some EAGAIN
   \<and> fst (snd (signalfd_ctx_read ctx_3 7 w_other_pending)) = 7
   \<and> fst (signalfd_ctx_read_openbsd ctx_3 7 w_pending_query_fails) = Some EFAULT
   \<and> fst (snd (signalfd_ctx_read_openbsd ctx_3 7 w_pending_query_fails)) = 7"
  using read_leaves_ident_on_failure [of ctx_3 7 w_other_pending ctx_3 7 w_pending_query_fails]
  by (simp add: read_other_pending read_openbsd_query_fails)

section \<open>\<open>signalfd_ctx_poll\<close>\<close>

text \<open>
  \<open>hushed\<close>: no signal arrives around any call still to come. \<open>polls n\<close> calls
  \<open>signalfd_ctx_poll\<close> \<open>n\<close> times in a row, with nothing in between, and collects what
  each call stores in \<open>revents\<close>. \<open>reconciliation_queries_succeed\<close> says that the
  pending-set queries a run of \<open>signalfd_ctx_clear_signal\<close> issues (the first one under
  \<open>was_triggered\<close>, the one after the clear when the clear is reached) all succeed;
  \<open>polls_queries_succeed n\<close> says so of all queries of the \<open>n\<close> polls.
\<close>

definition hushed :: "('a::len) world \<Rightarrow> bool" where
  "hushed w = (\<forall>e \<in> set (script w). arrivals e = [])"

definition query_succeeds :: "('a::len) SignalFDCtx \<Rightarrow> 'a world \<Rightarrow> bool" where
  "query_succeeds signalfd w =
     (case fst (signalfd_has_pending signalfd w) of Inl ec \<Rightarrow> False | Inr r \<Rightarrow> True)"

definition reconciliation_queries_succeed ::
    "('a::len) SignalFDCtx \<Rightarrow> bool \<Rightarrow> 'a world \<Rightarrow> bool" where
  "reconciliation_queries_succeed signalfd was_triggered w =
     (if was_triggered
      then query_succeeds signalfd w \<and>
           (failed_or_pending (fst (signalfd_has_pending signalfd w)) \<or>
            query_succeeds signalfd (kqueue_event_clear (snd (signalfd_has_pending signalfd w))))
      else query_succeeds signalfd (kqueue_event_clear w))"

definition poll_queries_succeed ::
    "('a::len) SignalFDCtx \<Rightarrow> 32 word option \<Rightarrow> 'a world \<Rightarrow> bool" where
  "poll_queries_succeed signalfd revents w =
     reconciliation_queries_succeed signalfd (revents \<noteq> None) (snd (pthread_mutex_lock w))"

primrec polls :: "nat \<Rightarrow> ('a::len) SignalFDCtx \<Rightarrow> 'a world \<Rightarrow> 32 word option list \<times> 'a world" where
  "polls 0 signalfd w = ([], w)"
| "polls (Suc n) signalfd w =
     (let (revents, w1) = signalfd_ctx_poll signalfd (Some 0) w;
          (rest, w2) = polls n signalfd w1
      in (revents # rest, w2))"

primrec polls_queries_succeed :: "nat \<Rightarrow> ('a::len) SignalFDCtx \<Rightarrow> 'a world \<Rightarrow> bool" where
  "polls_queries_succeed 0 signalfd w = True"
| "polls_queries_succeed (Suc n) signalfd w =
     (poll_queries_succeed signalfd (Some 0) w \<and>
      polls_queries_succeed n signalfd (snd (signalfd_ctx_poll signalfd (Some 0) w)))"

lemma hushed_next_event:
  assumes "hushed w"
  shows "hushed (snd (next_event c w)) \<and> pending (snd (next_event c w)) = pending w"
  using assms
  by (rule_tac next_event_cases [of w c]) (simp_all add: hushed_def deliver_all_def)

lemma hushed_ready_update [simp]: "hushed (w\<lparr>ready := b\<rparr>) = hushed w"
  by (simp add: hushed_def)

lemma hushed_has_pending:
  assumes "hushed w"
  shows "hushed (snd (signalfd_has_pending ctx w))
    \<and> pending (snd (signalfd_has_pending ctx w)) = pending w
    \<and> (query_succeeds ctx w \<longrightarrow>
         fst (signalfd_has_pending ctx w) =
           Inr (pending w AND sigs ctx \<noteq> 0, pending w AND sigs ctx))"
  using hushed_next_event [OF assms, of Sigpending]
  by (simp add: has_pending_unfold query_succeeds_def split: option.splits)

lemma hushed_clear:
  assumes "hushed w"
  shows "hushed (kqueue_event_clear w) \<and> pending (kqueue_event_clear w) = pending w"
  using hushed_next_event [OF assms, of Kqueue_event_clear]
  by (simp add: kqueue_event_clear_unfold)

lemma hushed_trigger:
  assumes "hushed w"
  shows "hushed (snd (signalfd_ctx_trigger_manually ctx w)) \<and>
         pending (snd (signalfd_ctx_trigger_manually ctx w)) = pending w"
  using hushed_next_event [OF assms, of Kqueue_event_trigger]
  by (simp add: signalfd_ctx_trigger_manually_def kqueue_event_trigger_def split_beta
      split: option.splits)

lemma hushed_clear_and_recheck:
  assumes "hushed w"
  shows "hushed (snd (clear_and_recheck ctx w))
    \<and> pending (snd (clear_and_recheck ctx w)) = pending w
    \<and> (query_succeeds ctx (kqueue_event_clear w) \<longrightarrow>
         fst (clear_and_recheck ctx w) = (pending w AND sigs ctx \<noteq> 0))"
proof -
  let ?w1 = "kqueue_event_clear w"
  let ?w2 = "snd (signalfd_has_pending ctx ?w1)"
  have 1: "hushed ?w1" "pending ?w1 = pending w" using hushed_clear [OF assms] by simp_all
  have 2: "hushed ?w2" "pending ?w2 = pending w"
    "query_succeeds ctx ?w1 \<longrightarrow>
       fst (signalfd_has_pending ctx ?w1) = Inr (pending w AND sigs ctx \<noteq> 0, pending w AND sigs ctx)"
    using hushed_has_pending [OF 1(1), of ctx] 1(2) by simp_all
  have 3: "hushed (snd (signalfd_ctx_trigger_manually ctx ?w2))"
    "pending (snd (signalfd_ctx_trigger_manually ctx ?w2)) = pending w"
    using hushed_trigger [OF 2(1), of ctx] 2(2) by simp_all
  show ?thesis
    using 2 3 by (simp add: clear_and_recheck_def split_beta Let_def failed_or_pending_def)
qed

lemma hushed_clear_signal:
  assumes "hushed w"
  shows "hushed (snd (signalfd_ctx_clear_signal ctx t w))
    \<and> pending (snd (signalfd_ctx_clear_signal ctx t w)) = pending w
    \<and> (reconciliation_queries_succeed ctx t w \<longrightarrow>
         fst (signalfd_ctx_clear_signal ctx t w) = (pending w AND sigs ctx \<noteq> 0))"
proof (cases t)
  case False
  then show ?thesis
    using hushed_clear_and_recheck [OF assms, of ctx]
    by (simp add: signalfd_ctx_clear_signal_def reconciliation_queries_succeed_def)
next
  case True
  let ?w1 = "snd (signalfd_has_pending ctx w)"
  have 1: "hushed ?w1" "pending ?w1 = pending w"
    "query_succeeds ctx w \<longrightarrow>
       fst (signalfd_has_pending ctx w) = Inr (pending w AND sigs ctx \<noteq> 0, pending w AND sigs ctx)"
    using hushed_has_pending [OF assms, of ctx] by simp_all
  have 2: "hushed (snd (clear_and_recheck ctx ?w1))"
    "pending (snd (clear_and_recheck ctx ?w1)) = pending w"
    "query_succeeds ctx (kqueue_event_clear ?w1) \<longrightarrow>
         fst (clear_and_recheck ctx ?w1) = (pending w AND sigs ctx \<noteq> 0)"
    using hushed_clear_and_recheck [OF 1(1), of ctx] 1(2) by simp_all
  show ?thesis
  proof (cases "failed_or_pending (fst (signalfd_has_pending ctx w))")
    case fp: True
    then show ?thesis
      using True 1
      by (auto simp: signalfd_ctx_clear_signal_def split_beta reconciliation_queries_succeed_def
          failed_or_pending_def)
  next
    case fp: False
    then show ?thesis
      using True 1 2
      by (auto simp: signalfd_ctx_clear_signal_def split_beta reconciliation_queries_succeed_def
          failed_or_pending_def)
  qed
qed

lemma hushed_lock:
  "hushed w \<Longrightarrow> hushed (snd (pthread_mutex_lock w)) \<and> pending (snd (pthread_mutex_lock w)) = pending w"
  by (simp add: pthread_mutex_lock_def split_beta hushed_next_event)

lemma hushed_unlock:
  "hushed w \<Longrightarrow> hushed (snd (pthread_mutex_unlock w)) \<and> pending (snd (pthread_mutex_unlock w)) = pending w"
  by (simp add: pthread_mutex_unlock_def split_beta hushed_next_event)

lemma hushed_poll:
  assumes "hushed w"
  shows "hushed (snd (signalfd_ctx_poll ctx (Some r) w))
    \<and> pending (snd (signalfd_ctx_poll ctx (Some r) w)) = pending w
    \<and> (poll_queries_succeed ctx (Some r) w \<longrightarrow>
         fst (signalfd_ctx_poll ctx (Some r) w) =
           Some (if pending w AND sigs ctx \<noteq> 0 then POLLIN else 0))"
proof -
  let ?w1 = "snd (pthread_mutex_lock w)"
  let ?w2 = "snd (signalfd_ctx_clear_signal ctx True ?w1)"
  have 1: "hushed ?w1" "pending ?w1 = pending w" using hushed_lock [OF assms] by simp_all
  have 2: "hushed ?w2" "pending ?w2 = pending w"
    "reconciliation_queries_succeed ctx True ?w1 \<longrightarrow>
       fst (signalfd_ctx_clear_signal ctx True ?w1) = (pending w AND sigs ctx \<noteq> 0)"
    using hushed_clear_signal [OF 1(1), of ctx True] 1(2) by simp_all
  have 3: "hushed (snd (pthread_mutex_unlock ?w2))" "pending (snd (pthread_mutex_unlock ?w2)) = pending w"
    using hushed_unlock [OF 2(1)] 2(2) by simp_all
  show ?thesis
    using 2(3) 3 by (simp add: signalfd_ctx_poll_def poll_queries_succeed_def split_beta Let_def)
qed

lemma hushed_polls:
  "hushed w \<Longrightarrow> polls_queries_succeed n ctx w \<Longrightarrow>
   fst (polls n ctx w) = replicate n (Some (if pending w AND sigs ctx \<noteq> 0 then POLLIN else 0))
   \<and> pending (snd (polls n ctx w)) = pending w"
proof (induction n arbitrary: w)
  case 0
  then show ?case by simp
next
  case (Suc n)
  let ?w1 = "snd (signalfd_ctx_poll ctx (Some 0) w)"
  from Suc.prems(2) have q: "poll_queries_succeed ctx (Some 0) w" "polls_queries_succeed n ctx ?w1"
    by simp_all
  from hushed_poll [OF Suc.prems(1), of ctx 0] q(1)
  have 1: "fst (signalfd_ctx_poll ctx (Some 0) w) =
      Some (if pending w AND sigs ctx \<noteq> 0 then POLLIN else 0)"
    "hushed ?w1" "pending ?w1 = pending w" by simp_all
  from Suc.IH [OF 1(2) q(2)] 1(3)
  have 2: "fst (polls n ctx ?w1) = replicate n (Some (if pending w AND sigs ctx \<noteq> 0 then POLLIN else 0))"
    "pending (snd (polls n ctx ?w1)) = pending w" by simp_all
  show ?case using 1(1) 2 by (simp add: split_beta Let_def)
qed

text \<open>When no call at all fails, no query does.\<close>

lemma calm_query_succeeds: "calm w \<Longrightarrow> query_succeeds ctx w"
  by (simp add: query_succeeds_def has_pending_calm)

lemma calm_has_pending: "calm w \<Longrightarrow> calm (snd (signalfd_has_pending ctx w))"
  by (simp add: has_pending_calm calm_next_event)

lemma calm_clear: "calm w \<Longrightarrow> calm (kqueue_event_clear w)"
  by (simp add: kqueue_event_clear_unfold calm_next_event)

lemma calm_trigger: "calm w \<Longrightarrow> calm (snd (signalfd_ctx_trigger_manually ctx w))"
  by (simp add: trigger_manually_calm calm_next_event)

lemma calm_clear_and_recheck: "calm w \<Longrightarrow> calm (snd (clear_and_recheck ctx w))"
  by (simp add: clear_and_recheck_def split_beta Let_def calm_clear calm_has_pending calm_trigger)

lemma calm_clear_signal: "calm w \<Longrightarrow> calm (snd (signalfd_ctx_clear_signal ctx t w))"
  by (simp add: signalfd_ctx_clear_signal_def split_beta calm_has_pending calm_clear_and_recheck)

lemma calm_lock: "calm w \<Longrightarrow> calm (snd (pthread_mutex_lock w))"
  by (simp add: pthread_mutex_lock_def split_beta calm_next_event)

lemma calm_unlock: "calm w \<Longrightarrow> calm (snd (pthread_mutex_unlock w))"
  by (simp add: pthread_mutex_unlock_def split_beta calm_next_event)

lemma calm_poll: "calm w \<Longrightarrow> calm (snd (signalfd_ctx_poll ctx revents w))"
  by (simp add: signalfd_ctx_poll_def split_beta Let_def calm_lock calm_clear_signal calm_unlock)

lemma calm_reconciliation_queries_succeed:
  "calm w \<Longrightarrow> reconciliation_queries_succeed ctx t w"
  by (simp add: reconciliation_queries_succeed_def calm_query_succeeds calm_has_pending calm_clear)

lemma calm_polls_queries_succeed: "calm w \<Longrightarrow> polls_queries_succeed n ctx w"
  by (induction n arbitrary: w)
    (simp_all add: poll_queries_succeed_def calm_reconciliation_queries_succeed calm_lock calm_poll)

lemma keeps_poll: "keeps m w (snd (signalfd_ctx_poll ctx revents w))"
proof -
  let ?w1 = "snd (pthread_mutex_lock w)"
  let ?w2 = "snd (signalfd_ctx_clear_signal ctx (revents \<noteq> None) ?w1)"
  have "keeps m w ?w1" by (rule keeps_lock)
  moreover have "keeps m ?w1 ?w2" by (rule keeps_clear_signal)
  ultimately have "keeps m w ?w2" by (rule keeps_trans)
  then have "keeps m w (snd (pthread_mutex_unlock ?w2))"
    using keeps_unlock by (rule keeps_trans)
  then show ?thesis by (simp add: signalfd_ctx_poll_def split_beta Let_def)
qed

text \<open>
  C7. With no signal delivered and no pending-set query failing (any other call, the
  lock and the unlock among them, may fail), any number of polls in a row, with no read
  in between, all store the same readiness value: \<open>POLLIN\<close> if a signal of the set is
  pending, else 0; and the pending set after them is the one before them. Whatever the
  environment does, failing calls and deliveries included, a poll never removes a
  signal from the pending set.
\<close>

theorem poll_is_idempotent:
  assumes "\<forall>e \<in> set (script w). arrivals e = []"
    and "polls_queries_succeed n signalfd w"
  shows "fst (polls n signalfd w) =
           replicate n (Some (if pending w AND sigs signalfd \<noteq> 0 then POLLIN else 0))
         \<and> pending (snd (polls n signalfd w)) = pending w
         \<and> (\<forall>k. bit (pending w0) k \<longrightarrow>
                bit (pending (snd (signalfd_ctx_poll signalfd revents w0))) k)"
proof -
  have "hushed w" using assms(1) by (simp add: hushed_def)
  from hushed_polls [OF this assms(2)] keeps_poll [of 0 w0 signalfd revents]
  show ?thesis by (simp add: keeps_def)
qed

text \<open>The definitions a concrete poll unfolds.\<close>

lemmas poll_defs = signalfd_ctx_poll_def pthread_mutex_lock_def pthread_mutex_unlock_def POLLIN_def

text \<open>
  Three polls on the set {3} with signals 2 and 3 pending, in which every lock and
  every unlock fails with \<open>EINVAL\<close> and the queries succeed.
\<close>

definition lock_fails :: event where
  "lock_fails = \<lparr>arrivals = [], failure = Some EINVAL, choice = 0\<rparr>"

definition w_pending_3 :: "32 world" where
  "w_pending_3 =
     \<lparr>pending = 6, ready = True, observed = [3], slept = 0,
      script = [lock_fails, quiet, lock_fails, lock_fails, quiet, lock_fails,
                lock_fails, quiet, lock_fails],
      trace = []\<rparr>"

lemma poll_pending_3:
  "signalfd_ctx_poll ctx_3 (Some 0)
     \<lparr>pending = 6, ready = True, observed = [3], slept = 0,
        script = lock_fails # quiet # lock_fails # es, trace = tr\<rparr> =
   (Some POLLIN,
    \<lparr>pending = 6, ready = True, observed = [3], slept = 0, script = es,
       trace = tr @ [Mutex_lock, Sigpending, Mutex_unlock]\<rparr>)"
  by (simp add: poll_defs world_defs ctx_3_def lock_fails_def)

lemma poll_queries_succeed_pending_3:
  "poll_queries_succeed ctx_3 (Some 0)
     \<lparr>pending = 6, ready = True, observed = [3], slept = 0,
        script = lock_fails # quiet # lock_fails # es, trace = tr\<rparr>"
  by (simp add: poll_queries_succeed_def reconciliation_queries_succeed_def query_succeeds_def
      poll_defs world_defs ctx_3_def lock_fails_def)

theorem poll_is_idempotent_witness:
  "fst (polls 3 ctx_3 w_pending_3) = [Some POLLIN, Some POLLIN, Some POLLIN]
   \<and> pending (snd (polls 3 ctx_3 w_pending_3)) = 6
   \<and> map failure (script w_pending_3) =
       [Some EINVAL, None, Some EINVAL, Some EINVAL, None, Some EINVAL,
        Some EINVAL, None, Some EINVAL]"
proof -
  have 1: "\<forall>e \<in> set (script w_pending_3). arrivals e = []"
    by (simp add: w_pending_3_def lock_fails_def quiet_def)
  have "polls_queries_succeed (Suc (Suc (Suc 0))) ctx_3 w_pending_3"
    by (simp add: w_pending_3_def poll_queries_succeed_pending_3 poll_pending_3)
  then have 2: "polls_queries_succeed 3 ctx_3 w_pending_3"
    by (simp add: numeral_3_eq_3)
  have 3: "replicate 3 x = [x, x, x]" for x :: "32 word option"
    by (simp add: numeral_3_eq_3)
  from poll_is_idempotent [OF 1 2, of w_pending_3 "Some 0"]
  show ?thesis
    by (simp add: 3) (simp add: ctx_3_def w_pending_3_def lock_fails_def quiet_def)
qed

section \<open>\<open>signalfd_ctx_init\<close>\<close>

lemma keeps_all_nonzero:
  assumes "keeps 0 w w'" and "pending w AND m \<noteq> 0"
  shows "pending w' AND m \<noteq> 0"
  using assms pending_and_mono [of "pending w" "pending w'" m] by (simp add: keeps_def)

lemma keeps_mutex_init: "keeps m w (snd (pthread_mutex_init w))"
  by (simp add: pthread_mutex_init_def split_beta keeps_next_event)

lemma keeps_kqueue_event_init: "keeps m w (snd (kqueue_event_init w))"
  by (simp add: kqueue_event_init_def split_beta keeps_def pending_next_event_mono
      split: option.splits)

lemma keeps_kevent: "keeps m w (snd (kevent kevs w))"
  by (simp add: kevent_def split_beta keeps_def pending_next_event_mono split: option.splits)

text \<open>Poll reports ready whenever a signal of the set is pending when it is called.\<close>

lemma poll_reports_pending:
  assumes "pending w AND sigs ctx \<noteq> 0"
  shows "fst (signalfd_ctx_poll ctx (Some r) w) = Some POLLIN"
proof -
  let ?w1 = "snd (pthread_mutex_lock w)"
  have "keeps 0 w ?w1" by (rule keeps_lock)
  moreover have "keeps 0 ?w1 (snd (next_event Sigpending ?w1))" by (rule keeps_next_event)
  ultimately have "keeps 0 w (snd (next_event Sigpending ?w1))" by (rule keeps_trans)
  then have "pending (snd (next_event Sigpending ?w1)) AND sigs ctx \<noteq> 0"
    using assms by (rule keeps_all_nonzero)
  then have "failed_or_pending (fst (signalfd_has_pending ctx ?w1))"
    by (simp add: has_pending_unfold failed_or_pending_def split: option.splits)
  then have "fst (signalfd_ctx_clear_signal ctx True ?w1)"
    by (simp add: signalfd_ctx_clear_signal_def split_beta)
  then show ?thesis
    by (simp add: signalfd_ctx_poll_def split_beta Let_def)
qed

lemma init_success:
  assumes "signalfd_ctx_init kq_arg sigs_arg w = (None, signalfd, w')"
  obtains w1 w2 w3 n hp ps w4 where
    "signalfd = \<lparr>kq = kq_arg, sigs = sigs_arg\<rparr>"
    "pthread_mutex_init w = (None, w1)"
    "kqueue_event_init w1 = (None, w2)"
    "kevent (signal_kevents sigs_arg [1..<Suc (SIG_MAXSIG sigs_arg)]) w2 = (Inr n, w3)"
    "signalfd_has_pending signalfd w3 = (Inr (hp, ps), w4)"
    "if hp then signalfd_ctx_trigger_manually signalfd w4 = (None, w') else w' = w4"
  using assms
  by (auto simp: signalfd_ctx_init_def init_out_def Let_def
      split: prod.splits option.splits sum.splits if_splits)

text \<open>
  C4. If a signal of the set is pending when \<open>signalfd_ctx_init\<close> is called, and the
  call returns 0, then the ready bit of the registration is set on return, and a poll
  right after reports \<open>POLLIN\<close>. This holds for every script of the environment, so also
  when no signal at all is delivered after the registration.
\<close>

theorem init_primes_pending:
  assumes "pending w AND sigs_arg \<noteq> 0"
    and "signalfd_ctx_init kq_arg sigs_arg w = (None, signalfd, w')"
  shows "ready w' \<and> fst (signalfd_ctx_poll signalfd (Some revents) w') = Some POLLIN"
proof -
  from assms(2) obtain w1 w2 w3 n hp ps w4 where
    ctx: "signalfd = \<lparr>kq = kq_arg, sigs = sigs_arg\<rparr>"
    and 1: "pthread_mutex_init w = (None, w1)"
    and 2: "kqueue_event_init w1 = (None, w2)"
    and 3: "kevent (signal_kevents sigs_arg [1..<Suc (SIG_MAXSIG sigs_arg)]) w2 = (Inr n, w3)"
    and 4: "signalfd_has_pending signalfd w3 = (Inr (hp, ps), w4)"
    and 5: "if hp then signalfd_ctx_trigger_manually signalfd w4 = (None, w') else w' = w4"
    by (rule init_success)
  have k1: "keeps 0 w w1" using keeps_mutex_init [of 0 w] 1 by simp
  have k2: "keeps 0 w1 w2" using keeps_kqueue_event_init [of 0 w1] 2 by simp
  have k3: "keeps 0 w2 w3"
    using keeps_kevent [where m = 0 and w = w2
        and kevs = "signal_kevents sigs_arg [1..<Suc (SIG_MAXSIG sigs_arg)]"]
    unfolding 3 by simp
  have k4: "keeps 0 w3 w4" using keeps_has_pending [of 0 w3 signalfd] 4 by simp
  have k04: "keeps 0 w w4" using k1 k2 k3 k4 by (blast intro: keeps_trans)
  then have p4: "pending w4 AND sigs_arg \<noteq> 0" using assms(1) by (rule keeps_all_nonzero)
  from has_pending_result [OF 4] have "hp = (pending w4 AND sigs signalfd \<noteq> 0)" by simp
  with p4 have hp by (simp add: ctx)
  with 5 have t: "signalfd_ctx_trigger_manually signalfd w4 = (None, w')" by simp
  then have r: "ready w'" using trigger_manually_ready [of signalfd w4] by simp
  have "keeps 0 w4 w'" using keeps_trigger [of 0 w4 signalfd] t by simp
  with k04 have "keeps 0 w w'" by (rule keeps_trans)
  then have "pending w' AND sigs signalfd \<noteq> 0"
    using assms(1) unfolding ctx by (simp add: keeps_all_nonzero)
  then have "fst (signalfd_ctx_poll signalfd (Some revents) w') = Some POLLIN"
    by (rule poll_reports_pending)
  with r show ?thesis by simp
qed








text \<open>
  Signal 1 is pending before a monitor for {1, 2} is initialised, and nothing happens
  afterwards.
\<close>

definition w_before_init :: "32 world" where
  "w_before_init =
     \<lparr>pending = 1, ready = False, observed = [], slept = 0, script = [], trace = []\<rparr>"

lemma signal_kevents_12:
  "signal_kevents (3 :: 32 word) [1..<Suc (SIG_MAXSIG (3 :: 32 word))] =
     [EV_SET 1 EVFILT_SIGNAL EV_ADD, EV_SET 2 EVFILT_SIGNAL EV_ADD]"
  unfolding SIG_MAXSIG_def by code_simp

definition w_primed :: "32 world" where
  "w_primed =
     \<lparr>pending = 1, ready = True, observed = [1, 2], slept = 0, script = [],
        trace = [Mutex_init, Kqueue_event_init,
                 Kevent [EV_SET 1 EVFILT_SIGNAL EV_ADD, EV_SET 2 EVFILT_SIGNAL EV_ADD],
                 Sigpending, Kqueue_event_trigger]\<rparr>"

lemma init_before_init:
  "signalfd_ctx_init 5 3 w_before_init = (None, \<lparr>kq = 5, sigs = 3\<rparr>, w_primed)"
  unfolding signalfd_ctx_init_def
  by (simp only: Let_def world.simps SignalFDCtx.simps signal_kevents_12)
    (simp add: pthread_mutex_init_def kqueue_event_init_def kevent_def world_defs
      w_before_init_def w_primed_def)

theorem init_primes_pending_witness:
  "signalfd_ctx_init 5 3 w_before_init = (None, \<lparr>kq = 5, sigs = 3\<rparr>, w_primed)
   \<and> ready w_primed
   \<and> fst (signalfd_ctx_poll \<lparr>kq = 5, sigs = 3\<rparr> (Some 0) w_primed) = Some POLLIN"
proof -
  have 1: "pending w_before_init AND 3 \<noteq> 0" by (simp add: w_before_init_def)
  from init_primes_pending [OF 1 init_before_init, of 0] init_before_init
  show ?thesis by simp
qed

section \<open>Nothing to claim\<close>

lemma sigtimedwait_none_pending:
  assumes "failure (fst (next_event (Sigtimedwait m zero_timeout) w)) = None"
    and "pending (snd (next_event (Sigtimedwait m zero_timeout) w)) AND m = 0"
  shows "sigtimedwait m zero_timeout w =
           (Inl EAGAIN, snd (next_event (Sigtimedwait m zero_timeout) w))"
  using assms
  by (simp add: sigtimedwait_def kernel_sigwait_def split_beta Let_def zero_timeout_def
      timespec_valid_def)

lemma read_impl_openbsd_none_pending:
  fixes w :: "32 world"
  assumes "failure (fst (next_event Sigpending w)) = None"
    and "pending (snd (next_event Sigpending w)) AND sigs signalfd = 0"
  shows "signalfd_ctx_read_impl_openbsd signalfd ident w =
           (Some EAGAIN, ident, snd (next_event Sigpending w))"
  using assms
  by (subst signalfd_ctx_read_impl_openbsd.simps) (simp add: has_pending_unfold)

text \<open>
  C2. \<open>wc\<close> is the world in which the first kernel call of the claim step takes effect:
  \<open>sigtimedwait\<close>, or on OpenBSD the pending-set query of the first round. If no signal
  of the set is pending there, and the environment does not make that very call fail (a
  kernel call that fails is the other outcome of read, the OS error), then
  \<open>signalfd_ctx_read\<close> returns \<open>EAGAIN\<close>, leaves \<open>ident\<close> alone, and has run the
  reconciliation step \<open>signalfd_ctx_clear_signal\<close> (entered without \<open>was_triggered\<close>) from
  \<open>wc\<close> before it unlocks and returns.
\<close>

theorem read_none_ready:
  fixes w :: "('a::len) world" and w' :: "32 world"
  shows
  "(let w1 = snd (pthread_mutex_lock w);
        (e, wc) = next_event (Sigtimedwait (sigs signalfd) zero_timeout) w1
    in failure e = None \<and> pending wc AND sigs signalfd = 0 \<longrightarrow>
       signalfd_ctx_read signalfd ident w =
         (Some EAGAIN, ident,
          snd (pthread_mutex_unlock (snd (signalfd_ctx_clear_signal signalfd False wc)))))
   \<and> (let w1 = snd (pthread_mutex_lock w');
            (e, wc) = next_event Sigpending w1
        in failure e = None \<and> pending wc AND sigs signalfd' = 0 \<longrightarrow>
           signalfd_ctx_read_openbsd signalfd' ident' w' =
             (Some EAGAIN, ident',
              snd (pthread_mutex_unlock (snd (signalfd_ctx_clear_signal signalfd' False wc)))))"
  by (simp add: split_beta Let_def read_unfold read_openbsd_unfold
      signalfd_ctx_read_impl_def sigtimedwait_none_pending read_impl_openbsd_none_pending)

text \<open>Both variants on the set {3} with only signal 2 pending.\<close>

lemma read_openbsd_other_pending:
  "signalfd_ctx_read_openbsd ctx_3 7 w_other_pending =
     (Some EAGAIN, 7,
      \<lparr>pending = 2, ready = False, observed = [3], slept = 0, script = [],
         trace = [Mutex_lock, Sigpending, Kqueue_event_clear, Sigpending, Mutex_unlock]\<rparr>)"
proof -
  have "signalfd_ctx_read_impl_openbsd ctx_3 7 (snd (pthread_mutex_lock w_other_pending)) =
     (Some EAGAIN, 7,
      \<lparr>pending = 2, ready = False, observed = [3], slept = 0, script = [],
         trace = [Mutex_lock, Sigpending]\<rparr>)"
    by (subst signalfd_ctx_read_impl_openbsd.simps)
      (simp add: read_defs world_defs ctx_3_def w_other_pending_def)
  then show ?thesis
    by (simp add: signalfd_ctx_read_openbsd_def Let_def) (simp add: read_defs world_defs ctx_3_def)
qed

theorem read_none_ready_witness:
  "signalfd_ctx_read ctx_3 7 w_other_pending =
     (Some EAGAIN, 7,
      \<lparr>pending = 2, ready = False, observed = [3], slept = 0, script = [],
         trace = [Mutex_lock, Sigtimedwait 4 zero_timeout, Kqueue_event_clear, Sigpending,
                  Mutex_unlock]\<rparr>)
   \<and> signalfd_ctx_read_openbsd ctx_3 7 w_other_pending =
     (Some EAGAIN, 7,
      \<lparr>pending = 2, ready = False, observed = [3], slept = 0, script = [],
         trace = [Mutex_lock, Sigpending, Kqueue_event_clear, Sigpending, Mutex_unlock]\<rparr>)"
  using read_none_ready [where signalfd = ctx_3 and w = w_other_pending and ident = 7
      and signalfd' = ctx_3 and w' = w_other_pending and ident' = 7]
  by (simp add: read_other_pending read_openbsd_other_pending)

section \<open>Kernel waits\<close>

text \<open>
  \<open>waits\<close> lists the timespec of every kernel wait in a trace, in order. \<open>no_wait\<close>
  relates two worlds between which no wait was issued and no thread slept.
\<close>

fun wait_timeout :: "'s call \<Rightarrow> timespec list" where
  "wait_timeout (Sigtimedwait m ts) = [ts]"
| "wait_timeout (Thrsigdivert m ts) = [ts]"
| "wait_timeout _ = []"

definition waits :: "'s call list \<Rightarrow> timespec list" where
  "waits tr = concat (map wait_timeout tr)"

definition no_wait :: "('a::len) world \<Rightarrow> 'a world \<Rightarrow> bool" where
  "no_wait w w' = (waits (trace w') = waits (trace w) \<and> slept w' = slept w)"

lemma no_wait_refl [simp]: "no_wait w w"
  by (simp add: no_wait_def)

lemma no_wait_trans: "no_wait w w' \<Longrightarrow> no_wait w' w'' \<Longrightarrow> no_wait w w''"
  by (simp add: no_wait_def)

lemma slept_deliver [simp]: "slept (deliver s w) = slept w"
  by (simp add: deliver_def)

lemma slept_deliver_all [simp]: "slept (deliver_all ss w) = slept w"
  unfolding deliver_all_def by (induction ss arbitrary: w) simp_all

lemma slept_next_event [simp]: "slept (snd (next_event c w)) = slept w"
  by (rule next_event_cases [of w c]) simp_all

lemma waits_snoc [simp]: "waits (tr @ [c]) = waits tr @ wait_timeout c"
  by (simp add: waits_def)

lemma no_wait_has_pending: "no_wait w (snd (signalfd_has_pending ctx w))"
  by (simp add: no_wait_def has_pending_unfold split: option.splits)

lemma no_wait_trigger: "no_wait w (snd (signalfd_ctx_trigger_manually ctx w))"
  by (simp add: no_wait_def signalfd_ctx_trigger_manually_def kqueue_event_trigger_def
      split_beta split: option.splits)

lemma no_wait_clear: "no_wait w (kqueue_event_clear w)"
  by (simp add: no_wait_def kqueue_event_clear_unfold)

lemma no_wait_lock: "no_wait w (snd (pthread_mutex_lock w))"
  by (simp add: no_wait_def pthread_mutex_lock_def split_beta)

lemma no_wait_unlock: "no_wait w (snd (pthread_mutex_unlock w))"
  by (simp add: no_wait_def pthread_mutex_unlock_def split_beta)

lemma no_wait_clear_and_recheck: "no_wait w (snd (clear_and_recheck ctx w))"
proof -
  have 1: "no_wait w (kqueue_event_clear w)" by (rule no_wait_clear)
  have 2: "no_wait (kqueue_event_clear w) (snd (signalfd_has_pending ctx (kqueue_event_clear w)))"
    by (rule no_wait_has_pending)
  have 3: "no_wait (snd (signalfd_has_pending ctx (kqueue_event_clear w)))
     (snd (signalfd_ctx_trigger_manually ctx (snd (signalfd_has_pending ctx (kqueue_event_clear w)))))"
    by (rule no_wait_trigger)
  from 1 2 3 show ?thesis
    by (auto simp: clear_and_recheck_def split_beta Let_def intro: no_wait_trans)
qed

lemma no_wait_clear_signal: "no_wait w (snd (signalfd_ctx_clear_signal ctx t w))"
  using no_wait_has_pending [of w ctx] no_wait_clear_and_recheck [of w ctx]
    no_wait_clear_and_recheck [of "snd (signalfd_has_pending ctx w)" ctx]
  by (auto simp: signalfd_ctx_clear_signal_def split_beta intro: no_wait_trans)

lemma no_wait_poll: "no_wait w (snd (signalfd_ctx_poll ctx revents w))"
proof -
  let ?w1 = "snd (pthread_mutex_lock w)"
  let ?w2 = "snd (signalfd_ctx_clear_signal ctx (revents \<noteq> None) ?w1)"
  have "no_wait w ?w1" by (rule no_wait_lock)
  moreover have "no_wait ?w1 ?w2" by (rule no_wait_clear_signal)
  ultimately have "no_wait w ?w2" by (rule no_wait_trans)
  then have "no_wait w (snd (pthread_mutex_unlock ?w2))"
    using no_wait_unlock by (rule no_wait_trans)
  then show ?thesis by (simp add: signalfd_ctx_poll_def split_beta Let_def)
qed

text \<open>A wait with the zero timespec, or with an invalid one, never sleeps.\<close>

lemma kernel_sigwait_immediate:
  assumes "ts = zero_timeout \<or> \<not> timespec_valid ts"
  shows "slept (snd (kernel_sigwait c m ts w)) = slept w \<and>
         trace (snd (kernel_sigwait c m ts w)) = trace w @ [c]"
  using assms
  by (auto simp: kernel_sigwait_def split_beta Let_def zero_timeout_def split: option.splits)

lemma invalid_timeout_invalid: "\<not> timespec_valid invalid_timeout"
  by (simp add: timespec_valid_def invalid_timeout_def)

lemma read_impl_waits:
  "waits (trace (snd (snd (signalfd_ctx_read_impl ctx ident w)))) =
     waits (trace w) @ [zero_timeout]
   \<and> slept (snd (snd (signalfd_ctx_read_impl ctx ident w))) = slept w"
proof -
  have "snd (snd (signalfd_ctx_read_impl ctx ident w)) =
      snd (kernel_sigwait (Sigtimedwait (sigs ctx) zero_timeout) (sigs ctx) zero_timeout w)"
    by (simp add: signalfd_ctx_read_impl_def sigtimedwait_def split: prod.splits sum.splits)
  then show ?thesis
    using kernel_sigwait_immediate [of zero_timeout "Sigtimedwait (sigs ctx) zero_timeout" "sigs ctx" w]
    by (simp add: waits_def)
qed

lemma thrsigdivert_waits:
  assumes "thrsigdivert m invalid_timeout w = (r, w')"
  shows "waits (trace w') = waits (trace w) @ [invalid_timeout] \<and> slept w' = slept w"
  using kernel_sigwait_immediate [of invalid_timeout "Thrsigdivert m invalid_timeout" m w]
    assms invalid_timeout_invalid
  by (simp add: thrsigdivert_def waits_def)

lemma read_impl_openbsd_waits:
  fixes w :: "32 world"
  shows "\<exists>k. waits (trace (snd (snd (signalfd_ctx_read_impl_openbsd ctx ident w)))) =
            waits (trace w) @ replicate k invalid_timeout
          \<and> slept (snd (snd (signalfd_ctx_read_impl_openbsd ctx ident w))) = slept w"
proof (induction "length (script w)" arbitrary: w rule: less_induct)
  case less
  have q: "no_wait w (snd (signalfd_has_pending ctx w))" by (rule no_wait_has_pending)
  show ?case
  proof (cases rule: read_impl_openbsd_cases [of ctx w ident])
    case (query_failed ec w1)
    with q have "no_wait w w1" by simp
    with query_failed(2) show ?thesis
      by (intro exI [of _ 0]) (simp add: no_wait_def)
  next
    case (none_pending ps w1)
    with q have "no_wait w w1" by simp
    with none_pending(2) show ?thesis
      by (intro exI [of _ 0]) (simp add: no_wait_def)
  next
    case (claimed ps w1 s w2)
    with q have "no_wait w w1" by simp
    with thrsigdivert_waits [OF claimed(2)] claimed(3) show ?thesis
      by (intro exI [of _ 1]) (simp add: no_wait_def)
  next
    case (wait_failed ps w1 err w2)
    with q have "no_wait w w1" by simp
    with thrsigdivert_waits [OF wait_failed(2)] wait_failed(5) show ?thesis
      by (intro exI [of _ 1]) (simp add: no_wait_def)
  next
    case (retry ps w1 err w2)
    with q have 1: "no_wait w w1" by simp
    from retry_consumes_script [OF retry(1,2)]
    have "length (script w2) < length (script w)" .
    from less [OF this] obtain k where
      k: "waits (trace (snd (snd (signalfd_ctx_read_impl_openbsd ctx ident w2)))) =
            waits (trace w2) @ replicate k invalid_timeout"
        "slept (snd (snd (signalfd_ctx_read_impl_openbsd ctx ident w2))) = slept w2"
      by blast
    with thrsigdivert_waits [OF retry(2)] 1 retry(4) show ?thesis
      by (intro exI [of _ "Suc k"]) (simp add: no_wait_def replicate_append_same)
  qed
qed

lemma read_waits:
  "waits (trace (snd (snd (signalfd_ctx_read ctx ident w)))) = waits (trace w) @ [zero_timeout]
   \<and> slept (snd (snd (signalfd_ctx_read ctx ident w))) = slept w"
proof -
  let ?w1 = "snd (pthread_mutex_lock w)"
  let ?w2 = "snd (snd (signalfd_ctx_read_impl ctx ident ?w1))"
  let ?w3 = "snd (signalfd_ctx_clear_signal ctx False ?w2)"
  have 1: "no_wait w ?w1" by (rule no_wait_lock)
  have 2: "waits (trace ?w2) = waits (trace ?w1) @ [zero_timeout]" "slept ?w2 = slept ?w1"
    using read_impl_waits [of ctx ident ?w1] by simp_all
  have 3: "no_wait ?w2 ?w3" by (rule no_wait_clear_signal)
  have 4: "no_wait ?w2 (snd (pthread_mutex_unlock ?w2))" by (rule no_wait_unlock)
  have 5: "no_wait ?w2 (snd (pthread_mutex_unlock ?w3))"
    using 3 no_wait_unlock by (rule no_wait_trans)
  show ?thesis
    using 1 2 4 5 by (simp add: read_unfold no_wait_def)
qed

lemma read_openbsd_waits:
  "\<exists>k. waits (trace (snd (snd (signalfd_ctx_read_openbsd ctx ident w)))) =
          waits (trace w) @ replicate k invalid_timeout
        \<and> slept (snd (snd (signalfd_ctx_read_openbsd ctx ident w))) = slept w"
proof -
  let ?w1 = "snd (pthread_mutex_lock w)"
  let ?w2 = "snd (snd (signalfd_ctx_read_impl_openbsd ctx ident ?w1))"
  let ?w3 = "snd (signalfd_ctx_clear_signal ctx False ?w2)"
  have 1: "no_wait w ?w1" by (rule no_wait_lock)
  obtain k where 2: "waits (trace ?w2) = waits (trace ?w1) @ replicate k invalid_timeout"
    "slept ?w2 = slept ?w1"
    using read_impl_openbsd_waits [of ctx ident ?w1] by blast
  have 3: "no_wait ?w2 ?w3" by (rule no_wait_clear_signal)
  have 4: "no_wait ?w2 (snd (pthread_mutex_unlock ?w2))" by (rule no_wait_unlock)
  have 5: "no_wait ?w2 (snd (pthread_mutex_unlock ?w3))"
    using 3 no_wait_unlock by (rule no_wait_trans)
  show ?thesis
    using 1 2 4 5 by (intro exI [of _ k]) (simp add: read_openbsd_unfold no_wait_def)
qed

text \<open>
  C5 (as amended). \<open>signalfd_ctx_read\<close> issues exactly one kernel wait, with the zero
  timespec; \<open>signalfd_ctx_poll\<close> issues none; on OpenBSD \<open>signalfd_ctx_read\<close> issues one
  wait per round of its loop, each with the timespec \<open>{0, -1}\<close>, which is not zero but
  invalid. In no case is a thread put to sleep in a wait (\<open>slept\<close> is unchanged). All
  three are total functions; the OpenBSD loop returns after as many rounds as the
  environment, whose script is finite, makes its waits fail.
\<close>

theorem waits_never_sleep:
  fixes w :: "('a::len) world" and w' :: "32 world"
  shows
  "waits (trace (snd (snd (signalfd_ctx_read signalfd ident w)))) =
     waits (trace w) @ [zero_timeout]
   \<and> slept (snd (snd (signalfd_ctx_read signalfd ident w))) = slept w
   \<and> waits (trace (snd (signalfd_ctx_poll signalfd revents w))) = waits (trace w)
   \<and> slept (snd (signalfd_ctx_poll signalfd revents w)) = slept w
   \<and> (\<exists>k. waits (trace (snd (snd (signalfd_ctx_read_openbsd signalfd' ident' w')))) =
             waits (trace w') @ replicate k invalid_timeout)
   \<and> slept (snd (snd (signalfd_ctx_read_openbsd signalfd' ident' w'))) = slept w'
   \<and> waits (trace (snd (signalfd_ctx_poll signalfd' revents' w'))) = waits (trace w')
   \<and> slept (snd (signalfd_ctx_poll signalfd' revents' w')) = slept w'
   \<and> \<not> timespec_valid invalid_timeout"
  using read_waits [of signalfd ident w] read_openbsd_waits [of signalfd' ident' w']
    no_wait_poll [of w signalfd revents] no_wait_poll [of w' signalfd' revents']
    invalid_timeout_invalid
  by (simp add: no_wait_def)

text \<open>
  C5 as stated fails on the OpenBSD variant: the wait of line 166 is given \<open>{0, -1}\<close>,
  not the zero timespec.
\<close>

theorem openbsd_wait_timeout_not_zero:
  "waits (trace (snd (snd (signalfd_ctx_read_openbsd ctx_3 0 w_two_pending)))) =
     [\<lparr>tv_sec = 0, tv_nsec = - 1\<rparr>]
   \<and> \<lparr>tv_sec = 0, tv_nsec = - 1\<rparr> \<noteq> zero_timeout"
  by (simp add: read_openbsd_two_pending waits_def zero_timeout_def invalid_timeout_def)

theorem waits_never_sleep_witness:
  "waits (trace (snd (snd (signalfd_ctx_read ctx_3 0 w_two_pending)))) = [zero_timeout]
   \<and> slept (snd (snd (signalfd_ctx_read ctx_3 0 w_two_pending))) = 0
   \<and> waits (trace (snd (snd (signalfd_ctx_read_openbsd ctx_3 0 w_two_pending)))) =
       [invalid_timeout]
   \<and> slept (snd (snd (signalfd_ctx_read_openbsd ctx_3 0 w_two_pending))) = 0"
  using waits_never_sleep [where signalfd = ctx_3 and ident = 0 and w = w_two_pending
      and signalfd' = ctx_3 and ident' = 0 and w' = w_two_pending]
  by (simp add: read_two_pending read_openbsd_two_pending waits_def)

section \<open>The OpenBSD claim loop against its description\<close>

text \<open>
  \<open>claim_loop\<close> follows the words of the specification: recompute the pending subset of
  the set; if it is empty, report \<open>NoneReady\<close>; otherwise attempt a single-signal
  non-blocking consuming wait on the lowest-numbered pending signal; on a failure code
  of the allow-list (\<open>benign\<close>: \<open>EINVAL\<close>, \<open>EAGAIN\<close>) go round again; on success return
  the identifier claimed; any other error, of the wait or of the query, is propagated.
  \<open>returned\<close> is what \<open>signalfd_ctx_read_impl\<close> hands back for each way out.
\<close>

datatype outcome = NoneReady | Claimed nat | OsError errno

fun returned :: "outcome \<Rightarrow> 32 word \<Rightarrow> errno_t \<times> 32 word" where
  "returned NoneReady ident = (Some EAGAIN, ident)"
| "returned (Claimed s) ident = (None, word_of_nat s)"
| "returned (OsError e) ident = (Some e, ident)"

definition benign :: "errno \<Rightarrow> bool" where
  "benign e = (e = EINVAL \<or> e = EAGAIN)"

definition lowest_pending :: "32 word \<Rightarrow> nat \<Rightarrow> bool" where
  "lowest_pending ps n = (sigismember ps n \<and> (\<forall>t. sigismember ps t \<longrightarrow> n \<le> t))"

definition single_signal :: "32 word \<Rightarrow> nat \<Rightarrow> bool" where
  "single_signal m n = (\<forall>t. sigismember m t \<longleftrightarrow> t = n)"

definition non_blocking :: "timespec \<Rightarrow> bool" where
  "non_blocking ts = (ts = zero_timeout \<or> \<not> timespec_valid ts)"

inductive claim_loop :: "32 SignalFDCtx \<Rightarrow> 32 world \<Rightarrow> outcome \<Rightarrow> 32 world \<Rightarrow> bool"
  for signalfd :: "32 SignalFDCtx" where
  query_error:
    "signalfd_has_pending signalfd w = (Inl ec, w1) \<Longrightarrow>
     claim_loop signalfd w (OsError ec) w1"
| empty:
    "signalfd_has_pending signalfd w = (Inr (hp, ps), w1) \<Longrightarrow>
     ps = pending w1 AND sigs signalfd \<Longrightarrow> ps = 0 \<Longrightarrow>
     claim_loop signalfd w NoneReady w1"
| claimed:
    "signalfd_has_pending signalfd w = (Inr (hp, ps), w1) \<Longrightarrow>
     ps = pending w1 AND sigs signalfd \<Longrightarrow> lowest_pending ps n \<Longrightarrow>
     single_signal m n \<Longrightarrow> non_blocking ts \<Longrightarrow>
     thrsigdivert m ts w1 = (Inr s, w2) \<Longrightarrow>
     claim_loop signalfd w (Claimed s) w2"
| retry:
    "signalfd_has_pending signalfd w = (Inr (hp, ps), w1) \<Longrightarrow>
     ps = pending w1 AND sigs signalfd \<Longrightarrow> lowest_pending ps n \<Longrightarrow>
     single_signal m n \<Longrightarrow> non_blocking ts \<Longrightarrow>
     thrsigdivert m ts w1 = (Inl err, w2) \<Longrightarrow> benign err \<Longrightarrow>
     claim_loop signalfd w2 out w3 \<Longrightarrow>
     claim_loop signalfd w out w3"
| real_error:
    "signalfd_has_pending signalfd w = (Inr (hp, ps), w1) \<Longrightarrow>
     ps = pending w1 AND sigs signalfd \<Longrightarrow> lowest_pending ps n \<Longrightarrow>
     single_signal m n \<Longrightarrow> non_blocking ts \<Longrightarrow>
     thrsigdivert m ts w1 = (Inl err, w2) \<Longrightarrow> \<not> benign err \<Longrightarrow>
     claim_loop signalfd w (OsError err) w2"

lemma ffs_lowest:
  fixes x :: "'a::len word"
  assumes "bit x k"
  shows "ffs x \<le> Suc k"
proof -
  have k: "k < LENGTH('a)" using assms by (rule bit_imp_le_length)
  then have "find (bit x) [0..<LENGTH('a)] \<noteq> None"
    using assms by (auto simp: find_None_iff)
  then obtain m where m: "find (bit x) [0..<LENGTH('a)] = Some m" by auto
  then obtain i where i: "i < LENGTH('a)" "m = [0..<LENGTH('a)] ! i"
    "\<forall>j<i. \<not> bit x ([0..<LENGTH('a)] ! j)"
    by (auto simp: find_Some_iff)
  have "m \<le> k"
  proof (rule ccontr)
    assume "\<not> m \<le> k"
    then have "k < i" using i(1,2) by simp
    moreover have "[0..<LENGTH('a)] ! k = k" using k by simp
    ultimately have "\<not> bit x k" using i(3) by metis
    with assms show False by simp
  qed
  with m show ?thesis by (simp add: ffs_def)
qed

lemma ffs_ucast: "ffs (ucast (x :: 32 word) :: 64 word) \<le> Suc k" if "bit x k"
proof -
  have "k < 32" using that by (auto dest: bit_imp_le_length)
  then have "bit (ucast x :: 64 word) k" using that by (simp add: bit_ucast_iff)
  then show ?thesis by (rule ffs_lowest)
qed

lemma ffsll_lowest_pending:
  fixes ps :: "32 word"
  assumes "ps \<noteq> 0"
  shows "lowest_pending ps (ffsll (ucast ps))"
  unfolding lowest_pending_def
proof (intro conjI allI impI)
  show "sigismember ps (ffsll (ucast ps))"
    using ffsll_ucast_bit [OF assms] by (simp add: sigismember_def)
next
  fix t assume "sigismember ps t"
  then have "1 \<le> t" "bit ps (t - 1)" by (simp_all add: sigismember_def)
  from ffs_ucast [OF this(2)] this(1) show "ffsll (ucast ps) \<le> t"
    by (simp add: ffsll_def)
qed

lemma sigmask_single_signal:
  "1 \<le> n \<Longrightarrow> n \<le> 32 \<Longrightarrow> single_signal (sigmask n) n"
  by (simp add: single_signal_def sigismember_sigmask)

lemma invalid_timeout_non_blocking: "non_blocking invalid_timeout"
  by (simp add: non_blocking_def invalid_timeout_invalid)

text \<open>
  C6. The loop of lines 140-173 is a run of \<open>claim_loop\<close>: from every world it returns,
  and it does so by one of the three ways out, an empty pending subset (\<open>NoneReady\<close>),
  a successful claim, or a propagated error; each wait it attempts is on the single
  signal that is lowest-numbered in the pending subset just computed, and it goes round
  again on \<open>EINVAL\<close> and \<open>EAGAIN\<close> of the wait and on nothing else.
\<close>

theorem openbsd_loop_is_claim_loop:
  fixes w :: "32 world"
  shows "\<exists>out w'. claim_loop signalfd w out w' \<and>
           signalfd_ctx_read_impl_openbsd signalfd ident w =
             (fst (returned out ident), snd (returned out ident), w')"
proof (induction "length (script w)" arbitrary: w rule: less_induct)
  case less
  show ?case
  proof (cases rule: read_impl_openbsd_cases [of signalfd w ident])
    case (query_failed ec w1)
    from claim_loop.query_error [OF query_failed(1)] query_failed(2)
    show ?thesis by (intro exI [of _ "OsError ec"] exI [of _ w1]) simp
  next
    case (none_pending ps w1)
    from has_pending_result [OF none_pending(1)]
    have "ps = pending w1 AND sigs signalfd" "ps = 0" by blast+
    from claim_loop.empty [OF none_pending(1) this] none_pending(2)
    show ?thesis by (intro exI [of _ NoneReady] exI [of _ w1]) simp
  next
    case (claimed ps w1 s w2)
    from has_pending_result [OF claimed(1)]
    have ps: "ps = pending w1 AND sigs signalfd" "ps \<noteq> 0" by blast+
    from ffsll_ucast_bit [OF ps(2)]
    have n: "1 \<le> ffsll (ucast ps)" "ffsll (ucast ps) \<le> 32" by simp_all
    from claim_loop.claimed [OF claimed(1) ps(1) ffsll_lowest_pending [OF ps(2)]
        sigmask_single_signal [OF n] invalid_timeout_non_blocking claimed(2)] claimed(3)
    show ?thesis by (intro exI [of _ "Claimed s"] exI [of _ w2]) simp
  next
    case (wait_failed ps w1 err w2)
    from has_pending_result [OF wait_failed(1)]
    have ps: "ps = pending w1 AND sigs signalfd" "ps \<noteq> 0" by blast+
    from ffsll_ucast_bit [OF ps(2)]
    have n: "1 \<le> ffsll (ucast ps)" "ffsll (ucast ps) \<le> 32" by simp_all
    have "\<not> benign err" using wait_failed(3,4) by (simp add: benign_def)
    from claim_loop.real_error [OF wait_failed(1) ps(1) ffsll_lowest_pending [OF ps(2)]
        sigmask_single_signal [OF n] invalid_timeout_non_blocking wait_failed(2) this]
      wait_failed(5)
    show ?thesis by (intro exI [of _ "OsError err"] exI [of _ w2]) simp
  next
    case (retry ps w1 err w2)
    from has_pending_result [OF retry(1)]
    have ps: "ps = pending w1 AND sigs signalfd" "ps \<noteq> 0" by blast+
    from ffsll_ucast_bit [OF ps(2)]
    have n: "1 \<le> ffsll (ucast ps)" "ffsll (ucast ps) \<le> 32" by simp_all
    have b: "benign err" using retry(3) by (simp add: benign_def)
    from retry_consumes_script [OF retry(1,2)]
    have "length (script w2) < length (script w)" .
    from less [OF this] obtain out w3 where
      run: "claim_loop signalfd w2 out w3"
      and res: "signalfd_ctx_read_impl_openbsd signalfd ident w2 =
        (fst (returned out ident), snd (returned out ident), w3)"
      by blast
    from claim_loop.retry [OF retry(1) ps(1) ffsll_lowest_pending [OF ps(2)]
        sigmask_single_signal [OF n] invalid_timeout_non_blocking retry(2) b run]
    have "claim_loop signalfd w out w3" .
    with res retry(4) show ?thesis by (intro exI [of _ out] exI [of _ w3]) simp
  qed
qed

text \<open>
  A run on the set {3} with signals 2 and 3 pending, in which the first wait is made to
  fail with \<open>EINVAL\<close>: the loop goes round once more and claims signal 3.
\<close>

definition w_retry :: "32 world" where
  "w_retry =
     \<lparr>pending = 6, ready = True, observed = [3], slept = 0,
      script = [\<lparr>arrivals = [], failure = None, choice = 0\<rparr>,
                \<lparr>arrivals = [], failure = Some EINVAL, choice = 0\<rparr>],
      trace = []\<rparr>"

definition w_claimed :: "32 world" where
  "w_claimed =
     \<lparr>pending = 2, ready = True, observed = [3], slept = 0, script = [],
        trace = [Sigpending, Thrsigdivert 4 invalid_timeout,
                 Sigpending, Thrsigdivert 4 invalid_timeout]\<rparr>"

lemma read_impl_openbsd_retry:
  "signalfd_ctx_read_impl_openbsd ctx_3 0 w_retry = (None, 3, w_claimed)"
  by (subst signalfd_ctx_read_impl_openbsd.simps, subst signalfd_ctx_read_impl_openbsd.simps)
    (simp add: read_defs world_defs ctx_3_def w_retry_def w_claimed_def ffs_4 ffsll_4 sigmask_def)

theorem openbsd_loop_is_claim_loop_witness:
  "signalfd_ctx_read_impl_openbsd ctx_3 0 w_retry = (None, 3, w_claimed)
   \<and> (\<exists>out. claim_loop ctx_3 w_retry out w_claimed \<and> returned out 0 = (None, 3))"
proof -
  from openbsd_loop_is_claim_loop [of ctx_3 w_retry 0] obtain out w' where
    "claim_loop ctx_3 w_retry out w'"
    "signalfd_ctx_read_impl_openbsd ctx_3 0 w_retry =
       (fst (returned out 0), snd (returned out 0), w')"
    by blast
  then have "claim_loop ctx_3 w_retry out w_claimed \<and> returned out 0 = (None, 3)"
    by (simp add: read_impl_openbsd_retry prod_eq_iff)
  then show ?thesis using read_impl_openbsd_retry by blast
qed

section \<open>Reconciliation on a monitor in use\<close>


inductive in_use ::
    "(('a::len) SignalFDCtx \<Rightarrow> 32 word \<Rightarrow> 'a world \<Rightarrow> errno_t \<times> 32 word \<times> 'a world) \<Rightarrow>
     'a SignalFDCtx \<Rightarrow> 'a world \<Rightarrow> bool"
  for rd :: "('a::len) SignalFDCtx \<Rightarrow> 32 word \<Rightarrow> 'a world \<Rightarrow> errno_t \<times> 32 word \<times> 'a world"
    and signalfd :: "'a SignalFDCtx" where
  initialised:
    "observed w = [] \<Longrightarrow> \<forall>e \<in> set (script w). failure e = None \<Longrightarrow>
     signalfd_ctx_init kq_arg sigs_arg w = (None, signalfd, w') \<Longrightarrow>
     in_use rd signalfd w'"
| after_read:
    "in_use rd signalfd w \<Longrightarrow> in_use rd signalfd (snd (snd (rd signalfd ident w)))"
| after_poll:
    "in_use rd signalfd w \<Longrightarrow> in_use rd signalfd (snd (signalfd_ctx_poll signalfd revents w))"


subsection \<open>\<open>signalfd_ctx_init\<close> leaves the monitor consistent\<close>









subsection \<open>The calls of read and poll keep it consistent\<close>









lemma registered_for_lock [simp]:
  "registered_for ctx (snd (pthread_mutex_lock w)) = registered_for ctx w"
  by (simp add: pthread_mutex_lock_def split_beta)

















section \<open>Scenario A of the specification\<close>

text \<open>
  The monitored set is {1, 2} and signal 1 is pending before \<open>signalfd_ctx_init\<close>; the
  environment stays quiet. Init succeeds, poll reports ready, read returns signal 1,
  the next read returns \<open>EAGAIN\<close> and leaves \<open>ident\<close> alone, and poll reports not ready.
  \<open>w_A r p tr\<close> is the world after init with ready bit \<open>r\<close>, pending set \<open>p\<close> and the
  calls \<open>tr\<close> made since.
\<close>

lemma ffs_1: "ffs (1 :: 32 word) = 1"
  by code_simp

lemma unset_bit_0_1: "unset_bit 0 (1 :: 32 word) = 0"
  by code_simp

definition ctx_A :: "32 SignalFDCtx" where
  "ctx_A = \<lparr>kq = 5, sigs = 3\<rparr>"

definition w_A :: "bool \<Rightarrow> 32 word \<Rightarrow> 32 word call list \<Rightarrow> 32 world" where
  "w_A r p tr =
     \<lparr>pending = p, ready = r, observed = [1, 2], slept = 0, script = [],
        trace = [Mutex_init, Kqueue_event_init,
                 Kevent [EV_SET 1 EVFILT_SIGNAL EV_ADD, EV_SET 2 EVFILT_SIGNAL EV_ADD],
                 Sigpending, Kqueue_event_trigger] @ tr\<rparr>"

lemma scenario_A_init:
  "signalfd_ctx_init 5 3 w_before_init = (None, ctx_A, w_A True 1 [])"
  by (simp add: init_before_init ctx_A_def w_A_def w_primed_def)

lemma scenario_A_poll_ready:
  "signalfd_ctx_poll ctx_A (Some 0) (w_A True 1 tr) =
     (Some POLLIN, w_A True 1 (tr @ [Mutex_lock, Sigpending, Mutex_unlock]))"
  by (simp add: ctx_A_def w_A_def poll_defs world_defs)

lemma scenario_A_read_claims:
  "signalfd_ctx_read ctx_A i (w_A True 1 tr) =
     (None, 1, w_A False 0 (tr @ [Mutex_lock, Sigtimedwait 3 zero_timeout, Kqueue_event_clear,
                                   Sigpending, Mutex_unlock]))"
  by (simp add: ctx_A_def w_A_def read_defs world_defs ffs_1 unset_bit_0_1)

lemma scenario_A_read_none:
  "signalfd_ctx_read ctx_A i (w_A False 0 tr) =
     (Some EAGAIN, i, w_A False 0 (tr @ [Mutex_lock, Sigtimedwait 3 zero_timeout,
                                         Kqueue_event_clear, Sigpending, Mutex_unlock]))"
  by (simp add: ctx_A_def w_A_def read_defs world_defs)

lemma scenario_A_poll_not_ready:
  "signalfd_ctx_poll ctx_A (Some r) (w_A False 0 tr) =
     (Some 0, w_A False 0 (tr @ [Mutex_lock, Sigpending, Kqueue_event_clear, Sigpending,
                                 Mutex_unlock]))"
  by (simp add: ctx_A_def w_A_def poll_defs world_defs)

lemma scenario_A:
  "(let (e0, ctx, w0) = signalfd_ctx_init 5 (3 :: 32 word) w_before_init;
        (r1, w1) = signalfd_ctx_poll ctx (Some 0) w0;
        (e2, i2, w2) = signalfd_ctx_read ctx 0 w1;
        (e3, i3, w3) = signalfd_ctx_read ctx i2 w2;
        (r4, w4) = signalfd_ctx_poll ctx (Some 0) w3
    in (e0, r1, e2, i2, e3, i3, r4, pending w4, ready w4)) =
   (None, Some POLLIN, None, 1, Some EAGAIN, 1, Some 0, 0, False)"
  by (simp add: scenario_A_init scenario_A_poll_ready scenario_A_read_claims
      scenario_A_read_none scenario_A_poll_not_ready)
    (simp add: w_A_def)

end
